theory Spec2Isabelle
  imports Complex_Main
begin

section \<open>JavaScript strings: split, join and number formatting\<close>

text \<open>
  The font helpers of Tools.ts work on CSS font strings such as ``bold 48px serif''
  through \<^verbatim>\<open>String.prototype.split(" ")\<close> and \<^verbatim>\<open>Array.prototype.join(" ")\<close>.
  \<^verbatim>\<open>split\<close> with a one-character separator cuts at every occurrence of the
  separator and keeps empty pieces, so the result always has at least one element.
\<close>

fun split_js :: "char \<Rightarrow> string \<Rightarrow> string list" where
  "split_js sep [] = [[]]"
| "split_js sep (c # cs) =
     (if c = sep then [] # split_js sep cs
      else (case split_js sep cs of
              [] \<Rightarrow> [[c]]
            | t # ts \<Rightarrow> (c # t) # ts))"

fun join_js :: "string \<Rightarrow> string list \<Rightarrow> string" where
  "join_js sep [] = []"
| "join_js sep [x] = x"
| "join_js sep (x # y # ys) = x @ sep @ join_js sep (y # ys)"

text \<open>
  A JavaScript value of static type \<^verbatim>\<open>string\<close> that may be \<^verbatim>\<open>undefined\<close> at run
  time (an array read past the end).
\<close>

datatype jsString = Undefined | Str string

text \<open>
  \<^verbatim>\<open>arr[1] = v\<close> on a JavaScript array: an array of length one is extended; an empty
  array would get a hole at index 0, which \<^verbatim>\<open>join\<close> renders as the empty string.
\<close>

fun assignIndex1 :: "string list \<Rightarrow> string \<Rightarrow> string list" where
  "assignIndex1 [] v = [[], v]"
| "assignIndex1 [a] v = [a, v]"
| "assignIndex1 (a # b # rest) v = a # v # rest"

text \<open>\<^verbatim>\<open>return cssFont.split(" ")[1];\<close>\<close>

definition getCSSFontSize :: "string \<Rightarrow> jsString" where
  "getCSSFontSize cssFont =
     (case split_js CHR '' '' cssFont of
        a # b # rest \<Rightarrow> Str b
      | _ \<Rightarrow> Undefined)"

text \<open>
  \<^verbatim>\<open>let cssFontArr = cssFont.split(" "); cssFontArr[1] = cssFontSize;
  return cssFontArr.join(" ");\<close>
\<close>

definition setCSSFontSize :: "string \<Rightarrow> string \<Rightarrow> string" where
  "setCSSFontSize cssFont cssFontSize =
     (let cssFontArr = split_js CHR '' '' cssFont;
          cssFontArr = assignIndex1 cssFontArr cssFontSize;
          newCSSFont = join_js '' '' cssFontArr
      in newCSSFont)"

text \<open>
  Decimal rendering of a non-negative integer, as \<^verbatim>\<open>n + "rem"\<close> renders the counter
  of the font search (a JavaScript number holding a small non-negative integer).
\<close>

definition digitChar :: "nat \<Rightarrow> char" where
  "digitChar d = ''0123456789'' ! (d mod 10)"

fun numberToString :: "nat \<Rightarrow> string" where
  "numberToString n =
     (if n < 10 then [digitChar n]
      else numberToString (n div 10) @ [digitChar (n mod 10)])"

declare numberToString.simps [simp del]

section \<open>The measurement surface of Tools.ts\<close>

text \<open>
  JavaScript numbers are IEEE doubles; they are modelled as real numbers, so rounding
  of the products and quotients below is not part of the model. \<^verbatim>\<open>new Vec2(x, y)\<close>
  stores \<^verbatim>\<open>x ? x : 0\<close>: a falsy coordinate (zero) is replaced by zero.
\<close>

record Vec2 =
  vec_x :: real
  vec_y :: real

definition newVec2 :: "real \<Rightarrow> real \<Rightarrow> Vec2" where
  "newVec2 a b = \<lparr>vec_x = (if a \<noteq> 0 then a else 0), vec_y = (if b \<noteq> 0 then b else 0)\<rparr>"

text \<open>The fields of the DOM's \<^verbatim>\<open>TextMetrics\<close> that Tools.ts reads.\<close>

record TextMetrics =
  width :: real
  actualBoundingBoxAscent :: real
  actualBoundingBoxDescent :: real
  fontBoundingBoxAscent :: real
  fontBoundingBoxDescent :: real

text \<open>The values of a computed style that \<^verbatim>\<open>getHTMLElementFont\<close> reads.\<close>

record ComputedStyle =
  fontWeight :: string
  fontSize :: string
  fontFamily :: string

text \<open>
  What the host page supplies and the program only reads: the viewport
  (\<^verbatim>\<open>document.documentElement.clientWidth/clientHeight\<close>), the text rasteriser behind
  \<^verbatim>\<open>context.measureText\<close> (a function of the context's current font and the text),
  the style cascade behind \<^verbatim>\<open>getComputedStyle\<close> for the children of the animation
  container (a function of the container's inline font size, which they inherit), and
  the sequence of values that successive calls of \<^verbatim>\<open>Math.random()\<close> return.
\<close>

record Browser =
  clientWidth :: int
  clientHeight :: int
  measureText :: "string \<Rightarrow> string \<Rightarrow> TextMetrics"
  computedStyle :: "string \<Rightarrow> ComputedStyle"
  mathRandom :: "nat \<Rightarrow> real"

text \<open>
  The module variable \<^verbatim>\<open>CANVAS\<close> is shared by all measurements; its 2D context keeps
  the font that was assigned last.
\<close>

record Canvas =
  contextFont :: string

text \<open>
  \<^verbatim>\<open>context.font = font; const metrics = context.measureText(text);
  return metrics.width;\<close>
\<close>

definition getTextWidth :: "Browser \<Rightarrow> string \<Rightarrow> string \<Rightarrow> Canvas \<Rightarrow> real \<times> Canvas" where
  "getTextWidth b txt fnt context =
     (let context = context\<lparr>contextFont := fnt\<rparr>;
          metrics = measureText b (contextFont context) txt
      in (width metrics, context))"

definition getTextHeight :: "Browser \<Rightarrow> string \<Rightarrow> string \<Rightarrow> Canvas \<Rightarrow> real \<times> Canvas" where
  "getTextHeight b txt fnt context =
     (let context = context\<lparr>contextFont := fnt\<rparr>;
          metrics = measureText b (contextFont context) txt
      in (actualBoundingBoxAscent metrics + actualBoundingBoxDescent metrics, context))"

definition getFontHeight :: "Browser \<Rightarrow> string \<Rightarrow> Canvas \<Rightarrow> real \<times> Canvas" where
  "getFontHeight b fnt context =
     (let context = context\<lparr>contextFont := fnt\<rparr>;
          metrics = measureText b (contextFont context) ''A''
      in (fontBoundingBoxAscent metrics + fontBoundingBoxDescent metrics, context))"

section \<open>clampFontSizeToScreenPadding\<close>

text \<open>
  Step [3] of the function, the search loop:
  \<^verbatim>\<open>
  while (nextTextSize.x < availableWindowSize.x && nextTextSize.y < availableWindowSize.y) {
      ++currentFontSize_inRem;
      textSize.x = nextTextSize.x;
      textSize.y = nextTextSize.y;
      let newFont: string = setCSSFontSize(font, currentFontSize_inRem + "rem");
      nextTextSize.x = getTextWidth(text, newFont);
      nextTextSize.y = getFontHeight(newFont);
  }
  \<close>
  Nothing in the source bounds the number of iterations, so the loop is a partial
  function: \<open>None\<close> is the run that never leaves the loop. The result is the counter
  \<^verbatim>\<open>currentFontSize_inRem\<close> at exit, with the canvas as the loop left it.
\<close>

partial_function (option) clampLoop ::
  "Browser \<Rightarrow> string \<Rightarrow> string \<Rightarrow> Vec2 \<Rightarrow> nat \<Rightarrow> Vec2 \<Rightarrow> Vec2 \<Rightarrow> Canvas \<Rightarrow> (nat \<times> Canvas) option"
where
  "clampLoop b txt fnt availableWindowSize currentFontSize_inRem textSize nextTextSize context =
     (if vec_x nextTextSize < vec_x availableWindowSize \<and> vec_y nextTextSize < vec_y availableWindowSize
      then
        (let currentFontSize_inRem = currentFontSize_inRem + 1;
             textSize = textSize\<lparr>vec_x := vec_x nextTextSize\<rparr>;
             textSize = textSize\<lparr>vec_y := vec_y nextTextSize\<rparr>;
             newFont = setCSSFontSize fnt (numberToString currentFontSize_inRem @ ''rem'');
             (w, context) = getTextWidth b txt newFont context;
             nextTextSize = nextTextSize\<lparr>vec_x := w\<rparr>;
             (h, context) = getFontHeight b newFont context;
             nextTextSize = nextTextSize\<lparr>vec_y := h\<rparr>
         in clampLoop b txt fnt availableWindowSize currentFontSize_inRem textSize nextTextSize context)
      else Some (currentFontSize_inRem, context))"

text \<open>
  The whole function. Step [1] computes the available area, step [2] returns the size
  token of the font handed in when the text measured at that font is not larger than
  the available area, step [3] runs the search and renders its counter as
  \<^verbatim>\<open>currentFontSize_inRem + "rem"\<close>.
\<close>

definition clampFontSizeToScreenPadding ::
  "Browser \<Rightarrow> string \<Rightarrow> string \<Rightarrow> real \<Rightarrow> Canvas \<Rightarrow> (jsString \<times> Canvas) option"
where
  "clampFontSizeToScreenPadding b txt fnt minScreenPadding_inPC context =
     (let windowSize = newVec2 (real_of_int (clientWidth b)) (real_of_int (clientHeight b));
          windowSize_pvalue = (100 - minScreenPadding_inPC) / 100;
          availableWindowSize = newVec2 (vec_x windowSize * windowSize_pvalue)
                                        (vec_y windowSize * windowSize_pvalue);
          (w, context) = getTextWidth b txt fnt context;
          (h, context) = getFontHeight b fnt context;
          textSize = newVec2 w h
      in if vec_x textSize \<le> vec_x availableWindowSize \<and> vec_y textSize \<le> vec_y availableWindowSize
         then Some (getCSSFontSize fnt, context)
         else
           (case clampLoop b txt fnt availableWindowSize 0 (newVec2 0 0) (newVec2 0 0) context of
              None \<Rightarrow> None
            | Some (currentFontSize_inRem, context) \<Rightarrow>
                Some (Str (numberToString currentFontSize_inRem @ ''rem''), context)))"

section \<open>JavaScript numbers\<close>

text \<open>
  A JavaScript number is an IEEE 754 binary64 value. The result of \<^verbatim>\<open>+\<close>, \<^verbatim>\<open>-\<close>, \<^verbatim>\<open>*\<close>,
  \<^verbatim>\<open>/\<close> and \<^verbatim>\<open>Math.sqrt\<close> is the exact result rounded to the nearest number with a
  significand of 53 bits, a tie going to the even significand. Numbers are kept as reals;
  in \<^verbatim>\<open>random\<close> and in the partition of \<^verbatim>\<open>#createCSSTextParts\<close>, whose results depend on
  the last bit of an intermediate value, the rounding of every operation is written out.

  \<open>binaryExponent x\<close> is the exponent \<open>e\<close> of a positive \<open>x\<close>, with
  \<open>2\<^sup>e \<le> x < 2\<^sup>e\<^sup>+\<^sup>1\<close>; it is found by halving and doubling.
\<close>

function binaryExponent :: "real \<Rightarrow> int" where
  "binaryExponent x =
     (if x \<le> 0 then 0
      else if 2 \<le> x then binaryExponent (x / 2) + 1
      else if x < 1 then binaryExponent (2 * x) - 1
      else 0)"
  by pat_completeness auto

termination
proof (relation "measure (\<lambda>x. nat \<lfloor>x\<rfloor> + 2 * nat \<lceil>1 / x\<rceil>)")
  show "wf (measure (\<lambda>x. nat \<lfloor>x\<rfloor> + 2 * nat \<lceil>1 / x\<rceil>))" by simp
next
  fix x :: real
  assume "\<not> x \<le> 0" and x: "2 \<le> x"
  have "1 / x \<le> 1" "0 < 1 / x" "1 / (x / 2) \<le> 1" "0 < 1 / (x / 2)" using x by (simp_all add: field_simps)
  then have c: "\<lceil>1 / x\<rceil> = 1" "\<lceil>1 / (x / 2)\<rceil> = 1" by (simp_all only: ceiling_eq_iff) simp_all
  have "x / 2 \<le> x - 1" using x by simp
  then have "\<lfloor>x / 2\<rfloor> \<le> \<lfloor>x - 1\<rfloor>" by (rule floor_mono)
  then have "\<lfloor>x / 2\<rfloor> < \<lfloor>x\<rfloor>" by simp
  moreover have "0 < \<lfloor>x\<rfloor>" using x by simp
  ultimately have "nat \<lfloor>x / 2\<rfloor> < nat \<lfloor>x\<rfloor>" by simp
  then show "(x / 2, x) \<in> measure (\<lambda>x. nat \<lfloor>x\<rfloor> + 2 * nat \<lceil>1 / x\<rceil>)"
    unfolding in_measure c by simp
next
  fix x :: real
  assume x0: "\<not> x \<le> 0" and "\<not> 2 \<le> x" and x: "x < 1"
  define n where "n = \<lceil>1 / x\<rceil>"
  have "1 < 1 / x" using x0 x by simp
  then have n2: "2 \<le> n" unfolding n_def by linarith
  have "1 / x \<le> real_of_int n" unfolding n_def by simp
  then have "1 / (2 * x) \<le> real_of_int n / 2" by simp
  also have "\<dots> \<le> real_of_int (n - 1)" using n2 by simp
  finally have "\<lceil>1 / (2 * x)\<rceil> \<le> n - 1" by (simp only: ceiling_le_iff)
  then have a: "nat \<lceil>1 / (2 * x)\<rceil> + 1 \<le> nat n" using n2 by simp
  have "2 * x < 2" using x by simp
  then have "\<lfloor>2 * x\<rfloor> < 2" by (simp only: floor_less_iff)
  then have b: "nat \<lfloor>2 * x\<rfloor> \<le> 1" by linarith
  have "\<lfloor>x\<rfloor> = 0" using x0 x by (simp add: floor_eq_iff)
  then have c: "nat \<lfloor>x\<rfloor> = 0" by simp
  show "(2 * x, x) \<in> measure (\<lambda>x. nat \<lfloor>x\<rfloor> + 2 * nat \<lceil>1 / x\<rceil>)"
    unfolding in_measure c n_def [symmetric] using a b by simp
qed

declare binaryExponent.simps [simp del]

text \<open>
  Rounding to the nearest integer, a tie to the even one.
\<close>

definition roundHalfEven :: "real \<Rightarrow> int" where
  "roundHalfEven q =
     (let f = \<lfloor>q\<rfloor>; d = q - real_of_int f
      in if d < 1 / 2 then f
         else if 1 / 2 < d then f + 1
         else if even f then f else f + 1)"

text \<open>
  The distance between neighbouring doubles at \<open>x\<close>: \<open>2\<^sup>e\<^sup>-\<^sup>5\<^sup>2\<close> for the exponent
  \<open>e\<close> of \<open>x\<close>, and \<open>2\<^sup>-\<^sup>1\<^sup>0\<^sup>7\<^sup>4\<close> below \<open>2\<^sup>-\<^sup>1\<^sup>0\<^sup>2\<^sup>2\<close>, where the numbers are
  subnormal. \<open>roundDouble\<close> rounds a real to the nearest double. Overflow to
  \<^verbatim>\<open>Infinity\<close> (from \<open>2\<^sup>1\<^sup>0\<^sup>2\<^sup>4\<close> on), \<^verbatim>\<open>NaN\<close> and the sign of zero are not
  represented.
\<close>

definition ulp :: "real \<Rightarrow> real" where
  "ulp x = 2 powi (max (binaryExponent \<bar>x\<bar>) (- 1022) - 52)"

definition roundDouble :: "real \<Rightarrow> real" where
  "roundDouble x = (if x = 0 then 0 else real_of_int (roundHalfEven (x / ulp x)) * ulp x)"

section \<open>The remaining helpers of Tools.ts\<close>

text \<open>
  \<^verbatim>\<open>min = Math.ceil(min); max = Math.floor(max);
  return Math.floor(Math.random() * (max - min + 1) + min);\<close>
  \<^verbatim>\<open>Math.random()\<close> is the only access to the random source; \<open>randomCalls\<close> counts
  the draws made so far, so the next draw is \<open>mathRandom b randomCalls\<close>. Each of the
  four arithmetic operations rounds its result to a double.
\<close>

definition random :: "Browser \<Rightarrow> real \<Rightarrow> real \<Rightarrow> nat \<Rightarrow> int \<times> nat" where
  "random b min' max' randomCalls =
     (let min' = real_of_int \<lceil>min'\<rceil>;
          max' = real_of_int \<lfloor>max'\<rfloor>;
          count = roundDouble (roundDouble (max' - min') + 1);
          scaled = roundDouble (mathRandom b randomCalls * count)
      in (\<lfloor>roundDouble (scaled + min')\<rfloor>, Suc randomCalls))"

text \<open>
  \<^verbatim>\<open>cmpCSSFont\<close>: compares the pixel count of the letter ``A'' in two fonts.
\<close>

definition cmpCSSFont :: "Browser \<Rightarrow> string \<Rightarrow> string \<Rightarrow> Canvas \<Rightarrow> int \<times> Canvas" where
  "cmpCSSFont b a1 b1 context =
     (let txt = ''A'';
          (wa, context) = getTextWidth b txt a1 context;
          (ha, context) = getTextHeight b txt a1 context;
          aPixelCount = \<lfloor>wa\<rfloor> * \<lfloor>ha\<rfloor>;
          (wb, context) = getTextWidth b txt b1 context;
          (hb, context) = getTextHeight b txt b1 context;
          bPixelCount = \<lfloor>wb\<rfloor> * \<lfloor>hb\<rfloor>
      in if aPixelCount > bPixelCount then (- 1, context)
         else if bPixelCount > aPixelCount then (1, context)
         else (0, context))"

section \<open>DOM objects\<close>

text \<open>
  What can be thrown on the paths modelled here: the \<^verbatim>\<open>Error\<close> of \<^verbatim>\<open>assert\<close>, the
  \<^verbatim>\<open>NotFoundError\<close> of \<^verbatim>\<open>removeChild\<close> on a node that is not a child, and the
  \<^verbatim>\<open>TypeError\<close> of a method call on \<^verbatim>\<open>undefined\<close>.
\<close>

datatype error = AssertionFailed | NotFoundError | TypeError

text \<open>
  A text div: its class list (a \<^verbatim>\<open>DOMTokenList\<close>: ordered, without duplicates), the text
  node appended to it, and the inline \<^verbatim>\<open>style.opacity\<close>.
\<close>

record HTMLDivElement =
  classList :: "string list"
  textContent :: string
  styleOpacity :: string

definition classList_add :: "string \<Rightarrow> string list \<Rightarrow> string list" where
  "classList_add c cl = (if c \<in> set cl then cl else cl @ [c])"

definition classList_remove :: "string \<Rightarrow> string list \<Rightarrow> string list" where
  "classList_remove c cl = filter (\<lambda>d. d \<noteq> c) cl"

definition classList_contains :: "string \<Rightarrow> string list \<Rightarrow> bool" where
  "classList_contains c cl \<longleftrightarrow> c \<in> set cl"

text \<open>Where the animation container is with respect to \<^verbatim>\<open>document.body\<close>.\<close>

datatype Placement = Detached | ChildOfBody | InsideBody

text \<open>
  The container div: its children in document order, the inline \<^verbatim>\<open>style.fontSize\<close>
  and \<^verbatim>\<open>style.display\<close>, and its placement.
\<close>

record Container =
  containerClassList :: "string list"
  children :: "HTMLDivElement list"
  styleFontSize :: string
  styleDisplay :: string
  placement :: Placement

text \<open>\<^verbatim>\<open>createDiv(classList)\<close>, for a text div and for the container.\<close>

definition createDiv :: "string list \<Rightarrow> HTMLDivElement" where
  "createDiv cls = \<lparr>classList = fold classList_add cls [], textContent = [], styleOpacity = []\<rparr>"

definition createContainerDiv :: "string list \<Rightarrow> Container" where
  "createContainerDiv cls =
     \<lparr>containerClassList = fold classList_add cls [], children = [],
      styleFontSize = [], styleDisplay = [], placement = Detached\<rparr>"

definition createTextDiv :: "string \<Rightarrow> string list \<Rightarrow> HTMLDivElement" where
  "createTextDiv txt cls =
     (let htmlTextDiv = createDiv cls
      in htmlTextDiv\<lparr>textContent := txt\<rparr>)"

text \<open>
  \<^verbatim>\<open>dom_addHiddenElement\<close>: \<^verbatim>\<open>if (htmlElement) { htmlElement.style.display = "none";
  document.body.appendChild(htmlElement); }\<close>
\<close>

definition dom_addHiddenElement :: "Container option \<Rightarrow> Container option" where
  "dom_addHiddenElement htmlElement =
     (case htmlElement of
        None \<Rightarrow> None
      | Some e \<Rightarrow> Some (e\<lparr>styleDisplay := ''none'', placement := ChildOfBody\<rparr>))"

text \<open>
  \<^verbatim>\<open>dom_removeHiddenElement\<close>: \<^verbatim>\<open>assert(htmlElement?.style.display == "none");
  if (htmlElement) { htmlElement.style.display = cssDisplayValue;
  document.body.removeChild(htmlElement); }\<close>
  For \<^verbatim>\<open>null\<close> the asserted comparison is \<^verbatim>\<open>undefined == "none"\<close>, which is false.
\<close>

definition dom_removeHiddenElement :: "Container option \<Rightarrow> string \<Rightarrow> error + Container option" where
  "dom_removeHiddenElement htmlElement cssDisplayValue =
     (case htmlElement of
        None \<Rightarrow> Inl AssertionFailed
      | Some e \<Rightarrow>
          if styleDisplay e \<noteq> ''none'' then Inl AssertionFailed
          else if placement e \<noteq> ChildOfBody then Inl NotFoundError
          else Inr (Some (e\<lparr>styleDisplay := cssDisplayValue, placement := Detached\<rparr>)))"

text \<open>
  \<^verbatim>\<open>getHTMLElementFont(htmlElement = document.body)\<close>, called with
  \<^verbatim>\<open>container?.children[0]\<close>. The computed style of a child of the container is
  \<open>computedStyle b\<close> at the container's inline font size; an element outside the
  document has an empty computed style; without a container or a first child the
  default argument \<^verbatim>\<open>document.body\<close> is measured, whose computed style is
  \<open>computedStyle b []\<close>. Each value falls back with \<^verbatim>\<open>||\<close> when it is empty.
\<close>

definition orDefault :: "string \<Rightarrow> string \<Rightarrow> string" where
  "orDefault s d = (if s = [] then d else s)"

definition getHTMLElementFont :: "Browser \<Rightarrow> Container option \<Rightarrow> string" where
  "getHTMLElementFont b container =
     (let style =
            (case container of
               None \<Rightarrow> computedStyle b []
             | Some c \<Rightarrow>
                 if children c = [] then computedStyle b []
                 else if placement c = Detached
                 then \<lparr>fontWeight = [], fontSize = [], fontFamily = []\<rparr>
                 else computedStyle b (styleFontSize c));
          fontWeight = orDefault (fontWeight style) ''normal'';
          fontSize = orDefault (fontSize style) ''16px'';
          fontFamily = orDefault (fontFamily style) ''Times New Roman''
      in fontWeight @ '' '' @ fontSize @ '' '' @ fontFamily)"

section \<open>TextAssembleAnimation\<close>

text \<open>
  The rules the animation adds to its stylesheet. The source builds each rule as text
  from a template; a rule is kept here by its template and the values inserted into it.
  \<open>PartRule\<close> is the rule of one text part: the \<^verbatim>\<open>nth-child\<close> index, the four corners
  of the clip polygon (left-top, right-top, right-bottom, left-bottom), the number in
  the animation name \<^verbatim>\<open>move<k>\<close>, the duration and the delay. \<open>KeyframesRule\<close> is
  \<^verbatim>\<open>@keyframes move<k>\<close> with the three start rotations and the start depth.
\<close>

datatype CSSRule =
    WrapperRule string string
  | TextRule
  | AnimationClassRule
  | HideRule
  | PartRule (nthChild: nat) (leftTop: Vec2) (rightTop: Vec2) (rightBottom: Vec2) (leftBottom: Vec2)
      (animationName: nat) (animationDuration: real) (animationDelay: real)
  | KeyframesRule (keyframesName: nat) (rotateX: int) (rotateY: int) (rotateZ: int) (translateZ: int)

text \<open>
  The interface \<^verbatim>\<open>TextAssembleAnimationConfig\<close>. \<open>textPartCount\<close> is a count of parts and
  is kept as an integer; the durations and the padding are numbers.
\<close>

record TextAssembleAnimationConfig =
  cfg_text :: string
  cfg_color :: string
  cssFontSize :: string
  cfg_minScreenPadding_inPC :: real
  textPartCount :: int
  cfg_duration_inS :: real
  cfg_startDelay_inS :: real

text \<open>
  The private fields of the class. \<open>htmlTextDiv\<close> is a reference to the ghost text
  div, which is also a child of the container: it is kept as the position of that
  child, so both names denote one element.
\<close>

record TextAssembleAnimation =
  anim_text :: string
  htmlTextContainer :: "Container option"
  stylesheet :: "CSSRule list"
  htmlTextDiv :: "nat option"
  textCount :: int
  duration_inS :: real
  startDelay_inS :: real
  color :: string
  originalCSSFontSize :: string
  minScreenPadding_inPC :: real

text \<open>
  The mutable state outside the animation object: the shared canvas, the number of
  random draws made, the number of registered resize listeners, the clock and the
  pending \<^verbatim>\<open>setTimeout\<close> callbacks with the time at which each is due.
\<close>

record World =
  canvas :: Canvas
  randomCalls :: nat
  resizeListeners :: nat
  now :: real
  pendingTimeouts :: "(real \<times> (TextAssembleAnimation \<Rightarrow> TextAssembleAnimation)) list"

text \<open>The constructor.\<close>

definition newTextAssembleAnimation :: TextAssembleAnimation where
  "newTextAssembleAnimation =
     \<lparr>anim_text = [], htmlTextContainer = None, stylesheet = [], htmlTextDiv = None,
      textCount = 1, duration_inS = 5, startDelay_inS = 0, color = ''black'',
      originalCSSFontSize = ''1rem'', minScreenPadding_inPC = 0\<rparr>"

text \<open>
  \<^verbatim>\<open>#createHTML\<close>: the container, \<open>textCount\<close> hidden text parts
  (\<^verbatim>\<open>for (let i = 0; i < this.#textCount; ++i)\<close>), then the ghost text div with
  opacity 1 as the last child.
\<close>

definition createHTML :: "TextAssembleAnimation \<Rightarrow> TextAssembleAnimation" where
  "createHTML a =
     (let container = createContainerDiv [''textAssembleAnimationWrapper''];
          container = fold (\<lambda>i c. c\<lparr>children := children c @ [createTextDiv (anim_text a) [''text'', ''hide'']]\<rparr>)
                        [0 ..< nat (textCount a)] container;
          ghost = createTextDiv (anim_text a) [];
          ghost = ghost\<lparr>styleOpacity := ''1''\<rparr>;
          ghostRef = length (children container);
          container = container\<lparr>children := children container @ [ghost]\<rparr>
      in a\<lparr>htmlTextContainer := Some container, htmlTextDiv := Some ghostRef\<rparr>)"

text \<open>
  A value of \<^verbatim>\<open>undefined\<close> stored into an array is rendered by \<^verbatim>\<open>join\<close> as the empty
  string.
\<close>

definition joinedText :: "jsString \<Rightarrow> string" where
  "joinedText v = (case v of Undefined \<Rightarrow> [] | Str s \<Rightarrow> s)"

text \<open>
  \<^verbatim>\<open>#resize\<close>. The search of \<^verbatim>\<open>clampFontSizeToScreenPadding\<close> may not return, and then
  neither does \<^verbatim>\<open>#resize\<close>. \<^verbatim>\<open>cmpCSSFont\<close> is evaluated only when the container
  exists (\<^verbatim>\<open>&&\<close>); assigning \<^verbatim>\<open>undefined\<close> to \<^verbatim>\<open>style.fontSize\<close> leaves the style as
  it was.
\<close>

definition resize ::
  "Browser \<Rightarrow> TextAssembleAnimation \<Rightarrow> World \<Rightarrow> (error + TextAssembleAnimation \<times> World) option"
where
  "resize b a w =
     (let isDOMElement = (case htmlTextContainer a of None \<Rightarrow> False | Some c \<Rightarrow> placement c \<noteq> Detached);
          container = map_option (\<lambda>c. c\<lparr>styleFontSize := originalCSSFontSize a\<rparr>) (htmlTextContainer a);
          container = (if \<not> isDOMElement then dom_addHiddenElement container else container);
          cssFont = getHTMLElementFont b container
      in case clampFontSizeToScreenPadding b (anim_text a) cssFont (minScreenPadding_inPC a) (canvas w) of
           None \<Rightarrow> None
         | Some (optimalCSSFontSize, context) \<Rightarrow>
             (let optimalCSSFont = setCSSFontSize cssFont (joinedText optimalCSSFontSize);
                  (container, context) =
                    (case container of
                       None \<Rightarrow> (None, context)
                     | Some c \<Rightarrow>
                         (let (cmp, context) = cmpCSSFont b cssFont optimalCSSFont context
                          in if cmp \<noteq> 0
                             then (case getCSSFontSize optimalCSSFont of
                                     Undefined \<Rightarrow> (Some c, context)
                                   | Str sz \<Rightarrow> (Some (c\<lparr>styleFontSize := sz\<rparr>), context))
                             else (Some c, context)));
                  w = w\<lparr>canvas := context\<rparr>
              in if \<not> isDOMElement
                 then (case dom_removeHiddenElement container ''flex'' of
                         Inl e \<Rightarrow> Some (Inl e)
                       | Inr container \<Rightarrow> Some (Inr (a\<lparr>htmlTextContainer := container\<rparr>, w)))
                 else Some (Inr (a\<lparr>htmlTextContainer := container\<rparr>, w))))"

text \<open>
  \<^verbatim>\<open>Number(size.replace(/\D/g, ""))\<close>: the decimal digits of the size token, read as
  one number (zero when there is no digit).
\<close>

definition isDigit :: "char \<Rightarrow> bool" where
  "isDigit c \<longleftrightarrow> c \<in> set ''0123456789''"

definition digitValue :: "char \<Rightarrow> nat" where
  "digitValue c = (if isDigit c then length (takeWhile (\<lambda>e. e \<noteq> c) ''0123456789'') else 0)"

definition digitsToNumber :: "string \<Rightarrow> nat" where
  "digitsToNumber ds = foldl (\<lambda>acc c. 10 * acc + digitValue c) 0 ds"

text \<open>
  The \<^verbatim>\<open>%\<close> of JavaScript on numbers: the remainder of the truncated quotient. The
  remainder of two doubles is a double, so this operation does not round.
\<close>

definition jsRemainder :: "real \<Rightarrow> real \<Rightarrow> real" where
  "jsRemainder a b = a - b * real_of_int (if 0 \<le> a / b then \<lfloor>a / b\<rfloor> else \<lceil>a / b\<rceil>)"

text \<open>
  \<^verbatim>\<open>new Vec2(Math.sqrt(textCount), Math.sqrt(textCount))\<close>. The square root of a negative
  number is \<^verbatim>\<open>NaN\<close>, which the constructor of \<^verbatim>\<open>Vec2\<close> replaces by 0.
\<close>

definition partGrid :: "int \<Rightarrow> Vec2" where
  "partGrid n =
     (if n < 0 then newVec2 0 0
      else newVec2 (roundDouble (sqrt (real_of_int n))) (roundDouble (sqrt (real_of_int n))))"

text \<open>
  The body of the loop of \<^verbatim>\<open>#createCSSTextParts\<close> for index \<open>i\<close>: the position and
  the size of the part.
  \<^verbatim>\<open>
  let current  = new Vec2(i % partCount.x, Math.floor(i / partCount.x));
  let partSize = new Vec2(textWidth / partCount.x, textHeight / partCount.y);
  let partPos  = new Vec2(current.x * partSize.x, current.y * partSize.y);
  \<close>
  The loop runs only for indices below a positive part count, so the divisor
  \<^verbatim>\<open>partCount.x\<close> is positive whenever this body is executed. Every quotient and
  every product is rounded to a double.
\<close>

definition cssTextPart :: "Vec2 \<Rightarrow> real \<Rightarrow> real \<Rightarrow> nat \<Rightarrow> Vec2 \<times> Vec2" where
  "cssTextPart partCount textWidth textHeight i =
     (let current = newVec2 (jsRemainder (real i) (vec_x partCount))
                            (real_of_int \<lfloor>roundDouble (real i / vec_x partCount)\<rfloor>);
          partSize = newVec2 (roundDouble (textWidth / vec_x partCount))
                             (roundDouble (textHeight / vec_y partCount));
          partPos = newVec2 (roundDouble (vec_x current * vec_x partSize))
                            (roundDouble (vec_y current * vec_y partSize))
      in (partPos, partSize))"

text \<open>
  The rule added for part \<open>i\<close>, with the clip polygon spelled out corner by corner:
  \<^verbatim>\<open>${partPos.x}px ${partPos.y}px\<close>, \<^verbatim>\<open>${partPos.x + partSize.x}px ${partPos.y}px\<close>,
  \<^verbatim>\<open>${partPos.x + partSize.x}px ${partPos.y + partSize.y}px\<close>,
  \<^verbatim>\<open>${partPos.x}px ${partPos.y + partSize.y}px\<close>. The two sums are rounded to a double.
\<close>

definition cssTextPartRule :: "TextAssembleAnimation \<Rightarrow> Vec2 \<Rightarrow> real \<Rightarrow> real \<Rightarrow> nat \<Rightarrow> CSSRule" where
  "cssTextPartRule a partCount textWidth textHeight i =
     (let (partPos, partSize) = cssTextPart partCount textWidth textHeight i;
          rightEdge = roundDouble (vec_x partPos + vec_x partSize);
          bottomEdge = roundDouble (vec_y partPos + vec_y partSize)
      in PartRule (i + 1)
           \<lparr>vec_x = vec_x partPos, vec_y = vec_y partPos\<rparr>
           \<lparr>vec_x = rightEdge, vec_y = vec_y partPos\<rparr>
           \<lparr>vec_x = rightEdge, vec_y = bottomEdge\<rparr>
           \<lparr>vec_x = vec_x partPos, vec_y = bottomEdge\<rparr>
           (i + 1) (duration_inS a) (startDelay_inS a))"

text \<open>
  \<^verbatim>\<open>#createCSSTextParts\<close>. Step [1] measures the text: its width, and as its height the
  larger of the number in the font size and \<^verbatim>\<open>getFontHeight\<close>. Step [2] adds one rule
  per part. \<^verbatim>\<open>getCSSFontSize(fontStr).replace\<close> throws when the font string has no
  second token.
\<close>

definition createCSSTextParts ::
  "Browser \<Rightarrow> TextAssembleAnimation \<Rightarrow> World \<Rightarrow> error + TextAssembleAnimation \<times> World"
where
  "createCSSTextParts b a w =
     (let partCount = partGrid (textCount a);
          container = dom_addHiddenElement (htmlTextContainer a);
          fontStr = getHTMLElementFont b container
      in case dom_removeHiddenElement container ''flex'' of
           Inl e \<Rightarrow> Inl e
         | Inr container \<Rightarrow>
             (let (textWidth, context) = getTextWidth b (anim_text a) fontStr (canvas w)
              in case getCSSFontSize fontStr of
                   Undefined \<Rightarrow> Inl TypeError
                 | Str sz \<Rightarrow>
                     (let fontHeight = real (digitsToNumber (filter isDigit sz));
                          (textHeight, context) = getFontHeight b fontStr context;
                          textHeight = (if fontHeight > textHeight then fontHeight else textHeight);
                          sheet = fold (\<lambda>i sheet. sheet @ [cssTextPartRule a partCount textWidth textHeight i])
                                    [0 ..< nat (textCount a)] (stylesheet a)
                      in Inr (a\<lparr>htmlTextContainer := container, stylesheet := sheet\<rparr>,
                              w\<lparr>canvas := context\<rparr>))))"

text \<open>
  \<^verbatim>\<open>#createCSSKeyframes\<close>: for each part four draws, in the order rotateX, rotateY,
  rotateZ, depth, and one \<^verbatim>\<open>@keyframes\<close> rule.
\<close>

definition createCSSKeyframe :: "Browser \<Rightarrow> nat \<Rightarrow> CSSRule list \<times> nat \<Rightarrow> CSSRule list \<times> nat" where
  "createCSSKeyframe b i st =
     (let (sheet, calls) = st;
          (rotateX, calls) = random b (- 500) 1000 calls;
          (rotateY, calls) = random b (- 500) 1000 calls;
          (rotateZ, calls) = random b (- 500) 1000 calls;
          (deph, calls) = random b (- 5000) 10000 calls
      in (sheet @ [KeyframesRule (i + 1) rotateX rotateY rotateZ deph], calls))"

definition createCSSKeyframes ::
  "Browser \<Rightarrow> TextAssembleAnimation \<Rightarrow> World \<Rightarrow> TextAssembleAnimation \<times> World"
where
  "createCSSKeyframes b a w =
     (let (sheet, calls) = fold (createCSSKeyframe b) [0 ..< nat (textCount a)] (stylesheet a, randomCalls w)
      in (a\<lparr>stylesheet := sheet\<rparr>, w\<lparr>randomCalls := calls\<rparr>))"

text \<open>
  \<^verbatim>\<open>init(config)\<close>: copies the configuration, creates the HTML, adds the four fixed
  rules, then \<^verbatim>\<open>#resize\<close>, \<^verbatim>\<open>#createCSSTextParts\<close>, \<^verbatim>\<open>#createCSSKeyframes\<close>, and
  registers the resize listener. Nothing in it inspects \<open>textPartCount\<close>. The local
  \<^verbatim>\<open>isGradientColor\<close>, which is computed and never read, is left out.
\<close>

definition init ::
  "Browser \<Rightarrow> TextAssembleAnimationConfig \<Rightarrow> TextAssembleAnimation \<Rightarrow> World
     \<Rightarrow> (error + TextAssembleAnimation \<times> World) option"
where
  "init b config a w =
     (let a = a\<lparr>anim_text := cfg_text config,
                color := cfg_color config,
                originalCSSFontSize := cssFontSize config,
                minScreenPadding_inPC := cfg_minScreenPadding_inPC config,
                textCount := textPartCount config,
                duration_inS := cfg_duration_inS config,
                startDelay_inS := cfg_startDelay_inS config\<rparr>;
          a = createHTML a;
          a = a\<lparr>stylesheet := stylesheet a @ [WrapperRule (color a) (originalCSSFontSize a)]\<rparr>;
          a = a\<lparr>stylesheet := stylesheet a @ [TextRule]\<rparr>;
          a = a\<lparr>stylesheet := stylesheet a @ [AnimationClassRule]\<rparr>;
          a = a\<lparr>stylesheet := stylesheet a @ [HideRule]\<rparr>
      in case resize b a w of
           None \<Rightarrow> None
         | Some (Inl e) \<Rightarrow> Some (Inl e)
         | Some (Inr (a, w)) \<Rightarrow>
             (case createCSSTextParts b a w of
                Inl e \<Rightarrow> Some (Inl e)
              | Inr (a, w) \<Rightarrow>
                  (let (a, w) = createCSSKeyframes b a w;
                       w = w\<lparr>resizeListeners := Suc (resizeListeners w)\<rparr>
                   in Some (Inr (a, w)))))"

text \<open>
  \<^verbatim>\<open>container.getElementsByClassName("text")\<close> selects the children that carry the
  class \<^verbatim>\<open>text\<close>; the loops of \<^verbatim>\<open>play\<close> change the class list of each of them.
\<close>

definition forEachPart :: "(string list \<Rightarrow> string list) \<Rightarrow> Container \<Rightarrow> Container" where
  "forEachPart f c =
     c\<lparr>children := map (\<lambda>part. if classList_contains ''text'' (classList part)
                                then part\<lparr>classList := f (classList part)\<rparr> else part)
                        (children c)\<rparr>"

text \<open>\<^verbatim>\<open>if (this.#htmlTextDiv) this.#htmlTextDiv.style.opacity = v;\<close>\<close>

definition setGhostOpacity :: "nat option \<Rightarrow> string \<Rightarrow> Container \<Rightarrow> Container" where
  "setGhostOpacity ref v c =
     (case ref of
        None \<Rightarrow> c
      | Some r \<Rightarrow>
          if r < length (children c)
          then c\<lparr>children := (children c)[r := (children c ! r)\<lparr>styleOpacity := v\<rparr>]\<rparr>
          else c)"

text \<open>
  The callback handed to \<^verbatim>\<open>setTimeout\<close> in \<^verbatim>\<open>play\<close>: every part loses the animation
  class and gets the class \<^verbatim>\<open>hide\<close> unless it has it; then the ghost gets opacity 1.
  Without a container it does nothing.
\<close>

definition settle :: "TextAssembleAnimation \<Rightarrow> TextAssembleAnimation" where
  "settle a =
     (case htmlTextContainer a of
        None \<Rightarrow> a
      | Some c \<Rightarrow>
          (let c = forEachPart (\<lambda>cl.
                     let cl = classList_remove ''textAssembleAnimation'' cl
                     in if \<not> classList_contains ''hide'' cl then classList_add ''hide'' cl else cl) c;
               c = setGhostOpacity (htmlTextDiv a) ''1'' c
           in a\<lparr>htmlTextContainer := Some c\<rparr>))"

text \<open>
  \<^verbatim>\<open>setTimeout(callback, delay)\<close>: the callback becomes due \<open>delay\<close> milliseconds from
  now (a negative delay counts as zero).
\<close>

definition setTimeout :: "(TextAssembleAnimation \<Rightarrow> TextAssembleAnimation) \<Rightarrow> real \<Rightarrow> World \<Rightarrow> World" where
  "setTimeout callback delay w =
     w\<lparr>pendingTimeouts := pendingTimeouts w @ [(now w + max 0 delay, callback)]\<rparr>"

text \<open>
  \<^verbatim>\<open>play()\<close>: every part gets the animation class (removed first when present) and
  loses the class \<^verbatim>\<open>hide\<close>; the ghost gets opacity 0; the settle callback is scheduled
  after \<^verbatim>\<open>(startDelay_inS + duration_inS) * 1000\<close> milliseconds.
\<close>

definition play :: "TextAssembleAnimation \<Rightarrow> World \<Rightarrow> TextAssembleAnimation \<times> World" where
  "play a w =
     (let container =
            map_option (forEachPart (\<lambda>cl.
                let cl = (if classList_contains ''textAssembleAnimation'' cl
                          then classList_remove ''textAssembleAnimation'' cl else cl);
                    cl = classList_add ''textAssembleAnimation'' cl
                in if classList_contains ''hide'' cl then classList_remove ''hide'' cl else cl))
              (htmlTextContainer a);
          container = map_option (setGhostOpacity (htmlTextDiv a) ''0'') container;
          a = a\<lparr>htmlTextContainer := container\<rparr>;
          delay = (startDelay_inS a + duration_inS a) * 1000;
          w = setTimeout settle delay w
      in (a, w))"

text \<open>
  The event loop when \<open>dt\<close> milliseconds pass: the clock advances, and the callbacks
  that are due by then run in the order in which they became due.
\<close>

definition elapse :: "real \<Rightarrow> TextAssembleAnimation \<times> World \<Rightarrow> TextAssembleAnimation \<times> World" where
  "elapse dt st =
     (let (a, w) = st;
          t = now w + dt;
          due = filter (\<lambda>(d, callback). d \<le> t) (pendingTimeouts w);
          later = filter (\<lambda>(d, callback). \<not> d \<le> t) (pendingTimeouts w);
          a = fold (\<lambda>(d, callback) a. callback a) (sort_key fst due) a
      in (a, w\<lparr>now := t, pendingTimeouts := later\<rparr>))"

section \<open>Vocabulary for stating what the search computes\<close>

text \<open>
  The quantities below are the values the functions above return, written without the
  canvas: the font string of the search at size \<open>n\<close>, the available area of step [1],
  and the three measurements of a text at a font.
\<close>

definition remFont :: "string \<Rightarrow> nat \<Rightarrow> string" where
  "remFont fnt n = setCSSFontSize fnt (numberToString n @ ''rem'')"

definition availableArea :: "Browser \<Rightarrow> real \<Rightarrow> Vec2" where
  "availableArea b padding =
     \<lparr>vec_x = real_of_int (clientWidth b) * ((100 - padding) / 100),
      vec_y = real_of_int (clientHeight b) * ((100 - padding) / 100)\<rparr>"

definition measuredWidth :: "Browser \<Rightarrow> string \<Rightarrow> string \<Rightarrow> real" where
  "measuredWidth b txt fnt = width (measureText b fnt txt)"

definition fontIntrinsicHeight :: "Browser \<Rightarrow> string \<Rightarrow> real" where
  "fontIntrinsicHeight b fnt =
     fontBoundingBoxAscent (measureText b fnt ''A'') + fontBoundingBoxDescent (measureText b fnt ''A'')"

definition actualHeight :: "Browser \<Rightarrow> string \<Rightarrow> string \<Rightarrow> real" where
  "actualHeight b txt fnt =
     actualBoundingBoxAscent (measureText b fnt txt) + actualBoundingBoxDescent (measureText b fnt txt)"

text \<open>The loop condition, evaluated on the measurements at size \<open>n\<close> rem.\<close>

definition fitsStrictly :: "Browser \<Rightarrow> string \<Rightarrow> string \<Rightarrow> Vec2 \<Rightarrow> nat \<Rightarrow> bool" where
  "fitsStrictly b txt fnt avail n \<longleftrightarrow>
     measuredWidth b txt (remFont fnt n) < vec_x avail \<and>
     fontIntrinsicHeight b (remFont fnt n) < vec_y avail"

text \<open>The test of step [2], evaluated on the measurements at the font handed in.\<close>

definition fitsAlready :: "Browser \<Rightarrow> string \<Rightarrow> string \<Rightarrow> Vec2 \<Rightarrow> bool" where
  "fitsAlready b txt fnt avail \<longleftrightarrow>
     measuredWidth b txt fnt \<le> vec_x avail \<and> fontIntrinsicHeight b fnt \<le> vec_y avail"

text \<open>
  The height that the specification describes for the fit test: the larger of the
  font-intrinsic height and the actual height of the text's glyphs.
\<close>

definition specFitHeight :: "Browser \<Rightarrow> string \<Rightarrow> string \<Rightarrow> real" where
  "specFitHeight b txt fnt = max (fontIntrinsicHeight b fnt) (actualHeight b txt fnt)"

section \<open>Vocabulary for stating what the animation does\<close>

text \<open>
  The font string \<^verbatim>\<open>getHTMLElementFont\<close> returns for a child of a container that is in the
  document and has the given inline font size.
\<close>

definition elementFont :: "Browser \<Rightarrow> string \<Rightarrow> string" where
  "elementFont b inlineSize =
     orDefault (fontWeight (computedStyle b inlineSize)) ''normal'' @ '' '' @
     orDefault (fontSize (computedStyle b inlineSize)) ''16px'' @ '' '' @
     orDefault (fontFamily (computedStyle b inlineSize)) ''Times New Roman''"

text \<open>
  A text part as \<^verbatim>\<open>#createHTML\<close> creates it: \<^verbatim>\<open>createTextDiv(text, ["text", "hide"])\<close>.
\<close>

definition textPartDiv :: "string \<Rightarrow> HTMLDivElement" where
  "textPartDiv txt = \<lparr>classList = [''text'', ''hide''], textContent = txt, styleOpacity = []\<rparr>"

text \<open>
  The ghost as \<^verbatim>\<open>#createHTML\<close> creates it: a text div without classes, with opacity 1.
\<close>

definition ghostDiv :: "string \<Rightarrow> HTMLDivElement" where
  "ghostDiv txt = \<lparr>classList = [], textContent = txt, styleOpacity = ''1''\<rparr>"

text \<open>
  A text part while the animation plays: the class \<^verbatim>\<open>hide\<close> replaced by the animation class.
\<close>

definition playingPartDiv :: "string \<Rightarrow> HTMLDivElement" where
  "playingPartDiv txt = \<lparr>classList = [''text'', ''textAssembleAnimation''], textContent = txt, styleOpacity = []\<rparr>"

text \<open>
  The assignments of step [1] of \<^verbatim>\<open>init\<close>: the configuration copied into the fields.
\<close>

definition configured :: "TextAssembleAnimationConfig \<Rightarrow> TextAssembleAnimation \<Rightarrow> TextAssembleAnimation" where
  "configured config a =
     a\<lparr>anim_text := cfg_text config,
       color := cfg_color config,
       originalCSSFontSize := cssFontSize config,
       minScreenPadding_inPC := cfg_minScreenPadding_inPC config,
       textCount := textPartCount config,
       duration_inS := cfg_duration_inS config,
       startDelay_inS := cfg_startDelay_inS config\<rparr>"

text \<open>
  The children of the container after \<^verbatim>\<open>#createHTML\<close>: the parts, then the ghost.
\<close>

definition initialChildren :: "TextAssembleAnimationConfig \<Rightarrow> HTMLDivElement list" where
  "initialChildren config =
     replicate (nat (textPartCount config)) (textPartDiv (cfg_text config)) @ [ghostDiv (cfg_text config)]"

text \<open>
  The error a call ended with, if it ended with one.
\<close>

definition raisedError :: "(error + 'a) option \<Rightarrow> error option" where
  "raisedError r = (case r of Some (Inl e) \<Rightarrow> Some e | _ \<Rightarrow> None)"

text \<open>
  The children of the animation's container after a call of \<^verbatim>\<open>init\<close> that returned.
\<close>

definition createdElements :: "(error + TextAssembleAnimation \<times> World) option \<Rightarrow> HTMLDivElement list option" where
  "createdElements r =
     (case r of
        Some (Inr (a, w)) \<Rightarrow> map_option children (htmlTextContainer a)
      | _ \<Rightarrow> None)"

text \<open>
  The part elements of an animation: what \<^verbatim>\<open>getElementsByClassName("text")\<close> selects in its container.
\<close>

definition parts :: "TextAssembleAnimation \<Rightarrow> HTMLDivElement list" where
  "parts a =
     (case htmlTextContainer a of
        None \<Rightarrow> []
      | Some c \<Rightarrow> filter (\<lambda>e. classList_contains ''text'' (classList e)) (children c))"

text \<open>
  The ghost element of an animation: the element \<open>htmlTextDiv\<close> refers to.
\<close>

definition ghost :: "TextAssembleAnimation \<Rightarrow> HTMLDivElement option" where
  "ghost a =
     (case htmlTextContainer a of
        None \<Rightarrow> None
      | Some c \<Rightarrow>
          (case htmlTextDiv a of
             None \<Rightarrow> None
           | Some r \<Rightarrow> if r < length (children c) then Some (children c ! r) else None))"

text \<open>
  An element is hidden by the rule \<^verbatim>\<open>.hide { display: none; }\<close> when it carries the class.
\<close>

definition isHidden :: "HTMLDivElement \<Rightarrow> bool" where
  "isHidden e \<longleftrightarrow> classList_contains ''hide'' (classList e)"

text \<open>
  An element takes part in the animation when it carries the class \<^verbatim>\<open>textAssembleAnimation\<close>.
\<close>

definition isAnimated :: "HTMLDivElement \<Rightarrow> bool" where
  "isAnimated e \<longleftrightarrow> classList_contains ''textAssembleAnimation'' (classList e)"

text \<open>
  The rule is the \<^verbatim>\<open>@keyframes\<close> rule of part \<open>i\<close>, with start rotations in [-500, 1000] and start
  depth in [-5000, 10000].
\<close>

definition keyframeInRange :: "nat \<Rightarrow> CSSRule \<Rightarrow> bool" where
  "keyframeInRange i rule \<longleftrightarrow>
     (case rule of
        KeyframesRule k rx ry rz d \<Rightarrow>
          k = i + 1 \<and> - 500 \<le> rx \<and> rx \<le> 1000 \<and> - 500 \<le> ry \<and> ry \<le> 1000
          \<and> - 500 \<le> rz \<and> rz \<le> 1000 \<and> - 5000 \<le> d \<and> d \<le> 10000
      | _ \<Rightarrow> False)"

text \<open>
  The text box that step [1] of \<^verbatim>\<open>#createCSSTextParts\<close> measures for a text at a font: the
  measured width of the text and, as its height, the larger of \<^verbatim>\<open>getFontHeight\<close> and the
  number formed by the digits of the size token of the font.
\<close>

definition textBox :: "Browser \<Rightarrow> string \<Rightarrow> string \<Rightarrow> Vec2" where
  "textBox b txt fnt =
     \<lparr>vec_x = measuredWidth b txt fnt,
      vec_y = (case getCSSFontSize fnt of
                 Undefined \<Rightarrow> fontIntrinsicHeight b fnt
               | Str sz \<Rightarrow> max (fontIntrinsicHeight b fnt) (real (digitsToNumber (filter isDigit sz))))\<rparr>"

text \<open>
  The rule the partition is to give part \<open>i\<close> of a grid of \<open>g\<close> by \<open>g\<close> cells over a text
  box of width \<open>W\<close> and height \<open>H\<close>, the cells counted row by row: the cell has the size
  \<open>(W / g, H / g)\<close> and the position \<open>((i mod g) * (W / g), (i div g) * (H / g))\<close>, and the
  clip polygon runs from the position to the position plus the size. Every quotient,
  product and sum is the double operation.
\<close>

definition specPartRule :: "TextAssembleAnimation \<Rightarrow> nat \<Rightarrow> real \<Rightarrow> real \<Rightarrow> nat \<Rightarrow> CSSRule" where
  "specPartRule a g W H i =
     (let cellWidth = roundDouble (W / real g);
          cellHeight = roundDouble (H / real g);
          x = roundDouble (real (i mod g) * cellWidth);
          y = roundDouble (real (i div g) * cellHeight);
          x' = roundDouble (x + cellWidth);
          y' = roundDouble (y + cellHeight)
      in PartRule (i + 1)
           \<lparr>vec_x = x, vec_y = y\<rparr> \<lparr>vec_x = x', vec_y = y\<rparr> \<lparr>vec_x = x', vec_y = y'\<rparr> \<lparr>vec_x = x, vec_y = y'\<rparr>
           (i + 1) (duration_inS a) (startDelay_inS a))"

text \<open>
  The rules a call added to the stylesheet of the animation \<open>a\<close> it was started on: the
  rules of the resulting stylesheet behind those that were there before (none when the
  call ended with an error).
\<close>

definition addedRules :: "TextAssembleAnimation \<Rightarrow> error + TextAssembleAnimation \<times> World \<Rightarrow> CSSRule list" where
  "addedRules a r =
     (case r of
        Inl e \<Rightarrow> []
      | Inr (a', w') \<Rightarrow> drop (length (stylesheet a)) (stylesheet a'))"

text \<open>
  A point is shown by a part rule: the clip polygon of the rule is the rectangle spanned
  by its left-top and right-bottom corners, and the point lies in it, the left and top
  edges included, the right and bottom edges excluded.
\<close>

definition pointInRule :: "CSSRule \<Rightarrow> real \<Rightarrow> real \<Rightarrow> bool" where
  "pointInRule rule px py \<longleftrightarrow>
     (case rule of
        PartRule k lt rt rb lb n d dl \<Rightarrow>
          vec_x rt = vec_x rb \<and> vec_y rt = vec_y lt \<and> vec_x lb = vec_x lt \<and> vec_y lb = vec_y rb
          \<and> vec_x lt \<le> px \<and> px < vec_x rb \<and> vec_y lt \<le> py \<and> py < vec_y rb
      | _ \<Rightarrow> False)"

text \<open>
  The computation of \<open>g\<close> cells along an axis of length \<open>L\<close> incurs no rounding error: the
  cell size is \<open>L / g\<close> exactly, and every left edge \<open>k * cell\<close> and every right edge
  \<open>k * cell + cell\<close> is a double.
\<close>

definition exactCells :: "nat \<Rightarrow> real \<Rightarrow> bool" where
  "exactCells g L \<longleftrightarrow>
     (let cell = roundDouble (L / real g)
      in real g * cell = L
       \<and> list_all (\<lambda>k. roundDouble (real k * cell) = real k * cell
                      \<and> roundDouble (real k * cell + cell) = real k * cell + cell) [0 ..< g])"

section \<open>A concrete page for running the model\<close>

text \<open>
  A browser whose rasteriser scales every metric with the font size in pixels, with
  16 pixels to the rem: a text is half its font size wide per character, the font box
  is 5/4 of the font size high, and the glyph box is \<open>glyphScale\<close> times the font size
  high. The size is read from the second token of the font string (``48px'',
  ``3rem''); a font string without one counts as 10 pixels. Its style cascade resolves
  an inline size to whole pixels, weight 400 and family serif, and its random source
  always returns one half.
\<close>

definition cssSizeInPx :: "string \<Rightarrow> real" where
  "cssSizeInPx s =
     (let ds = takeWhile isDigit s; unit = dropWhile isDigit s
      in if unit = ''rem'' then 16 * real (digitsToNumber ds) else real (digitsToNumber ds))"

definition fontPx :: "string \<Rightarrow> real" where
  "fontPx fnt = (case getCSSFontSize fnt of Str s \<Rightarrow> cssSizeInPx s | Undefined \<Rightarrow> 10)"

definition proportionalMeasureText :: "real \<Rightarrow> string \<Rightarrow> string \<Rightarrow> TextMetrics" where
  "proportionalMeasureText glyphScale fnt txt =
     \<lparr>width = fontPx fnt * real (length txt) / 2,
      actualBoundingBoxAscent = glyphScale * fontPx fnt,
      actualBoundingBoxDescent = 0,
      fontBoundingBoxAscent = fontPx fnt,
      fontBoundingBoxDescent = fontPx fnt / 4\<rparr>"

definition proportionalBrowser :: "int \<Rightarrow> int \<Rightarrow> real \<Rightarrow> Browser" where
  "proportionalBrowser w h glyphScale =
     \<lparr>clientWidth = w, clientHeight = h,
      measureText = proportionalMeasureText glyphScale,
      computedStyle = (\<lambda>inlineSize.
         \<lparr>fontWeight = ''400'',
          fontSize = numberToString (nat \<lfloor>cssSizeInPx inlineSize\<rfloor>) @ ''px'',
          fontFamily = ''serif''\<rparr>),
      mathRandom = (\<lambda>n. 1 / 2)\<rparr>"

definition freshCanvas :: Canvas where
  "freshCanvas = \<lparr>contextFont = ''10px sans-serif''\<rparr>"

definition freshWorld :: World where
  "freshWorld = \<lparr>canvas = freshCanvas, randomCalls = 0, resizeListeners = 0, now = 0,
                  pendingTimeouts = []\<rparr>"

definition demoConfig :: "int \<Rightarrow> TextAssembleAnimationConfig" where
  "demoConfig n =
     \<lparr>cfg_text = ''Jonas'', cfg_color = ''red'', cssFontSize = ''30rem'',
      cfg_minScreenPadding_inPC = 20, textPartCount = n,
      cfg_duration_inS = 10, cfg_startDelay_inS = 1\<rparr>"

text \<open>
  A page whose rasteriser reports a text of 120 by 60 pixels at ``bold 48px serif'' and
  an empty box at every other font, in a viewport of 100 by 100 pixels.
\<close>

definition flatBrowser :: Browser where
  "flatBrowser =
     \<lparr>clientWidth = 100, clientHeight = 100,
      measureText = (\<lambda>fnt txt.
         if fnt = ''bold 48px serif''
         then \<lparr>width = 120, actualBoundingBoxAscent = 40, actualBoundingBoxDescent = 0,
               fontBoundingBoxAscent = 48, fontBoundingBoxDescent = 12\<rparr>
         else \<lparr>width = 0, actualBoundingBoxAscent = 0, actualBoundingBoxDescent = 0,
               fontBoundingBoxAscent = 0, fontBoundingBoxDescent = 0\<rparr>),
      computedStyle = (\<lambda>inlineSize. \<lparr>fontWeight = ''bold'', fontSize = ''48px'', fontFamily = ''serif''\<rparr>),
      mathRandom = (\<lambda>n. 0)\<rparr>"

text \<open>
  The page of \<open>flatBrowser\<close> with a random source that returns \<open>1 - 2\<^sup>-\<^sup>5\<^sup>2\<close> at every
  draw: the largest value of a \<^verbatim>\<open>Math.random()\<close> that fills the 52 fraction bits of a
  double in [1, 2) and subtracts 1.
\<close>

definition topDrawBrowser :: Browser where
  "topDrawBrowser = flatBrowser\<lparr>mathRandom := (\<lambda>n. 1 - 1 / 2 ^ 52)\<rparr>"

text \<open>
  The animation of a configuration after \<^verbatim>\<open>#createHTML\<close>, with the inline font size of its
  container set to \<open>sz\<close>, as \<^verbatim>\<open>#resize\<close> sets it before \<^verbatim>\<open>#createCSSTextParts\<close> runs.
\<close>

definition sizedAnimation :: "TextAssembleAnimationConfig \<Rightarrow> string \<Rightarrow> TextAssembleAnimation" where
  "sizedAnimation config sz =
     (let a = createHTML (configured config newTextAssembleAnimation)
      in a\<lparr>htmlTextContainer := map_option (\<lambda>c. c\<lparr>styleFontSize := sz\<rparr>) (htmlTextContainer a)\<rparr>)"

text \<open>
  The animation and the world a call of \<^verbatim>\<open>init\<close> returned (the fresh ones when it did not return).
\<close>

definition initialised :: "(error + TextAssembleAnimation \<times> World) option \<Rightarrow> TextAssembleAnimation \<times> World" where
  "initialised r = (case r of Some (Inr st) \<Rightarrow> st | _ \<Rightarrow> (newTextAssembleAnimation, freshWorld))"

section \<open>Properties of split and join\<close>

lemma split_js_nonempty: "split_js sep s \<noteq> []"
  by (induction s) (auto split: list.splits)

lemma split_js_no_sep: "t \<in> set (split_js sep s) \<Longrightarrow> sep \<notin> set t"
proof (induction s arbitrary: t)
  case Nil
  then show ?case by simp
next
  case (Cons c cs)
  show ?case
  proof (cases "c = sep")
    case True
    with Cons show ?thesis by auto
  next
    case False
    obtain u us where us: "split_js sep cs = u # us"
      using split_js_nonempty [of sep cs] by (cases "split_js sep cs") auto
    with Cons.prems False have "t = c # u \<or> t \<in> set us" by simp
    then show ?thesis
    proof
      assume "t = c # u"
      moreover have "sep \<notin> set u" using Cons.IH [of u] us by simp
      ultimately show ?thesis using False by auto
    next
      assume "t \<in> set us"
      then show ?thesis using Cons.IH [of t] us by simp
    qed
  qed
qed

lemma split_js_plain: "sep \<notin> set x \<Longrightarrow> split_js sep x = [x]"
  by (induction x) auto

lemma split_js_append:
  "sep \<notin> set x \<Longrightarrow> split_js sep (x @ sep # r) = x # split_js sep r"
  by (induction x) auto

lemma split_join_js:
  "xs \<noteq> [] \<Longrightarrow> \<forall>x \<in> set xs. sep \<notin> set x \<Longrightarrow> split_js sep (join_js [sep] xs) = xs"
proof (induction xs)
  case Nil
  then show ?case by simp
next
  case (Cons x xs)
  show ?case
  proof (cases xs)
    case Nil
    with Cons.prems show ?thesis by (simp add: split_js_plain)
  next
    case (Cons y ys)
    with Cons.prems Cons.IH show ?thesis by (simp add: split_js_append)
  qed
qed

lemma join_split_js: "join_js [sep] (split_js sep s) = s"
proof (induction s)
  case Nil
  then show ?case by simp
next
  case (Cons c cs)
  obtain u us where us: "split_js sep cs = u # us"
    using split_js_nonempty [of sep cs] by (cases "split_js sep cs") auto
  show ?case
  proof (cases "c = sep")
    case True
    with Cons us show ?thesis by simp
  next
    case False
    with Cons us show ?thesis by (cases us) auto
  qed
qed

lemma assignIndex1_no_sep:
  "\<forall>x \<in> set xs. sep \<notin> set x \<Longrightarrow> sep \<notin> set v \<Longrightarrow> \<forall>x \<in> set (assignIndex1 xs v). sep \<notin> set x"
  by (induction xs v rule: assignIndex1.induct) auto

lemma assignIndex1_nonempty: "assignIndex1 xs v \<noteq> []"
  by (induction xs v rule: assignIndex1.induct) auto

lemma split_setCSSFontSize:
  assumes "CHR '' '' \<notin> set v"
  shows "split_js CHR '' '' (setCSSFontSize f v) = assignIndex1 (split_js CHR '' '' f) v"
proof -
  have "\<forall>x \<in> set (split_js CHR '' '' f). CHR '' '' \<notin> set x"
    using split_js_no_sep by blast
  then have "\<forall>x \<in> set (assignIndex1 (split_js CHR '' '' f) v). CHR '' '' \<notin> set x"
    using assms by (rule assignIndex1_no_sep)
  then show ?thesis
    unfolding setCSSFontSize_def Let_def
    using split_join_js [of "assignIndex1 (split_js CHR '' '' f) v" "CHR '' ''"] assignIndex1_nonempty
    by simp
qed

lemma assignIndex1_update: "2 \<le> length xs \<Longrightarrow> assignIndex1 xs v = xs[1 := v]"
  by (induction xs v rule: assignIndex1.induct) auto

text \<open>
  C10. For a font string with at least two space-separated tokens and a size string
  without a space, reading the size back after setting it gives the size that was set,
  and setting the size replaces the second token only: every other token (weight,
  family words) stays where it was.
\<close>

theorem getCSSFontSize_setCSSFontSize:
  assumes "2 \<le> length (split_js CHR '' '' font)" and "CHR '' '' \<notin> set sz"
  shows "getCSSFontSize (setCSSFontSize font sz) = Str sz
       \<and> split_js CHR '' '' (setCSSFontSize font sz) = (split_js CHR '' '' font)[1 := sz]"
proof -
  have s: "split_js CHR '' '' (setCSSFontSize font sz) = assignIndex1 (split_js CHR '' '' font) sz"
    using assms(2) by (rule split_setCSSFontSize)
  obtain a b rest where abr: "split_js CHR '' '' font = a # b # rest"
    using assms(1) by (cases "split_js CHR '' '' font"; cases "tl (split_js CHR '' '' font)") auto
  have "getCSSFontSize (setCSSFontSize font sz) = Str sz"
    unfolding getCSSFontSize_def s abr by simp
  moreover have "split_js CHR '' '' (setCSSFontSize font sz) = (split_js CHR '' '' font)[1 := sz]"
    unfolding s using assms(1) by (rule assignIndex1_update)
  ultimately show ?thesis by simp
qed

theorem getCSSFontSize_setCSSFontSize_witness:
  "2 \<le> length (split_js CHR '' '' ''bold 48px serif'') \<and> CHR '' '' \<notin> set ''3rem''
   \<and> getCSSFontSize (setCSSFontSize ''bold 48px serif'' ''3rem'') = Str ''3rem''
   \<and> split_js CHR '' '' (setCSSFontSize ''bold 48px serif'' ''3rem'') = [''bold'', ''3rem'', ''serif'']"
proof -
  have h1: "2 \<le> length (split_js CHR '' '' ''bold 48px serif'')" by simp
  have h2: "CHR '' '' \<notin> set ''3rem''" by simp
  have sp: "split_js CHR '' '' ''bold 48px serif'' = [''bold'', ''48px'', ''serif'']" by simp
  show ?thesis
    using h1 h2 getCSSFontSize_setCSSFontSize [OF h1 h2] unfolding sp by simp
qed

section \<open>The search loop and the function around it\<close>

lemma getTextWidth_eq [simp]:
  "getTextWidth b txt fnt c = (measuredWidth b txt fnt, c\<lparr>contextFont := fnt\<rparr>)"
  by (simp add: getTextWidth_def measuredWidth_def)

lemma getTextHeight_eq [simp]:
  "getTextHeight b txt fnt c = (actualHeight b txt fnt, c\<lparr>contextFont := fnt\<rparr>)"
  by (simp add: getTextHeight_def actualHeight_def Let_def)

lemma getFontHeight_eq [simp]:
  "getFontHeight b fnt c = (fontIntrinsicHeight b fnt, c\<lparr>contextFont := fnt\<rparr>)"
  by (simp add: getFontHeight_def fontIntrinsicHeight_def Let_def)

lemma newVec2_eq [simp]: "newVec2 a b = \<lparr>vec_x = a, vec_y = b\<rparr>"
  by (simp add: newVec2_def)

lemma clampLoop_exit:
  assumes "\<not> (vec_x nxt < vec_x avail \<and> vec_y nxt < vec_y avail)"
  shows "clampLoop b txt fnt avail cur ts nxt c = Some (cur, c)"
  by (subst clampLoop.simps, subst if_not_P [OF assms], rule refl)

lemma clampLoop_step:
  assumes "vec_x nxt < vec_x avail \<and> vec_y nxt < vec_y avail"
  shows "clampLoop b txt fnt avail cur ts nxt c =
   clampLoop b txt fnt avail (Suc cur) (ts\<lparr>vec_x := vec_x nxt, vec_y := vec_y nxt\<rparr>)
     (nxt\<lparr>vec_x := measuredWidth b txt (remFont fnt (Suc cur)),
          vec_y := fontIntrinsicHeight b (remFont fnt (Suc cur))\<rparr>)
     (c\<lparr>contextFont := remFont fnt (Suc cur)\<rparr>)"
  by (subst clampLoop.simps, subst if_P [OF assms]) (simp add: remFont_def Let_def)

lemma clampLoop_total:
  assumes "vec_x nxt < vec_x avail \<and> vec_y nxt < vec_y avail"
    and "cur < m"
    and "\<forall>k. cur < k \<and> k < m \<longrightarrow> fitsStrictly b txt fnt avail k"
    and "\<not> fitsStrictly b txt fnt avail m"
  shows "clampLoop b txt fnt avail cur ts nxt c = Some (m, c\<lparr>contextFont := remFont fnt m\<rparr>)"
  using assms
proof (induction "m - cur" arbitrary: cur ts nxt c)
  case 0
  then show ?case by simp
next
  case (Suc d)
  let ?nxt = "nxt\<lparr>vec_x := measuredWidth b txt (remFont fnt (Suc cur)),
          vec_y := fontIntrinsicHeight b (remFont fnt (Suc cur))\<rparr>"
  let ?ts = "ts\<lparr>vec_x := vec_x nxt, vec_y := vec_y nxt\<rparr>"
  let ?c = "c\<lparr>contextFont := remFont fnt (Suc cur)\<rparr>"
  have step: "clampLoop b txt fnt avail cur ts nxt c = clampLoop b txt fnt avail (Suc cur) ?ts ?nxt ?c"
    using Suc.prems(1) by (rule clampLoop_step)
  have nxt_fits: "(vec_x ?nxt < vec_x avail \<and> vec_y ?nxt < vec_y avail) = fitsStrictly b txt fnt avail (Suc cur)"
    by (simp add: fitsStrictly_def)
  show ?case
  proof (cases "Suc cur = m")
    case True
    with Suc.prems(4) have "\<not> (vec_x ?nxt < vec_x avail \<and> vec_y ?nxt < vec_y avail)"
      unfolding nxt_fits by simp
    then have "clampLoop b txt fnt avail (Suc cur) ?ts ?nxt ?c = Some (Suc cur, ?c)"
      by (rule clampLoop_exit)
    then show ?thesis using step True by simp
  next
    case False
    with Suc.prems(2) have lt: "Suc cur < m" by simp
    then have "fitsStrictly b txt fnt avail (Suc cur)" using Suc.prems(3) by simp
    then have f: "vec_x ?nxt < vec_x avail \<and> vec_y ?nxt < vec_y avail"
      unfolding nxt_fits .
    have d: "d = m - Suc cur" using Suc.hyps(2) by simp
    have "clampLoop b txt fnt avail (Suc cur) ?ts ?nxt ?c = Some (m, ?c\<lparr>contextFont := remFont fnt m\<rparr>)"
      using Suc.hyps(1) [OF d f lt] Suc.prems(3,4) by simp
    then show ?thesis using step by simp
  qed
qed

lemma clampLoop_partial:
  assumes "clampLoop b txt fnt avail cur ts nxt c = Some (m, c')"
  shows "(m = cur \<and> c' = c \<and> \<not> (vec_x nxt < vec_x avail \<and> vec_y nxt < vec_y avail))
       \<or> (cur < m \<and> c' = c\<lparr>contextFont := remFont fnt m\<rparr>
           \<and> (vec_x nxt < vec_x avail \<and> vec_y nxt < vec_y avail)
           \<and> (\<forall>k. cur < k \<and> k < m \<longrightarrow> fitsStrictly b txt fnt avail k)
           \<and> \<not> fitsStrictly b txt fnt avail m)"
proof -
  let ?P = "\<lambda>b txt fnt avail cur (ts::Vec2) nxt c r.
     (fst r = cur \<and> snd r = c \<and> \<not> (vec_x nxt < vec_x avail \<and> vec_y nxt < vec_y avail))
       \<or> (cur < fst r \<and> snd r = c\<lparr>contextFont := remFont fnt (fst r)\<rparr>
           \<and> (vec_x nxt < vec_x avail \<and> vec_y nxt < vec_y avail)
           \<and> (\<forall>k. cur < k \<and> k < fst r \<longrightarrow> fitsStrictly b txt fnt avail k)
           \<and> \<not> fitsStrictly b txt fnt avail (fst r))"
  have "?P b txt fnt avail cur ts nxt c (m, c')"
  proof (rule clampLoop.raw_induct [where P = "?P", OF _ assms], goal_cases)
    case (1 f b tx fnt avail cur ts nxt c r)
    show ?case
    proof (cases "vec_x nxt < vec_x avail \<and> vec_y nxt < vec_y avail")
      case False
      with 1(2) show ?thesis by auto
    next
      case True
      let ?nxt = "nxt\<lparr>vec_x := measuredWidth b tx (remFont fnt (Suc cur)),
          vec_y := fontIntrinsicHeight b (remFont fnt (Suc cur))\<rparr>"
      let ?ts = "ts\<lparr>vec_x := vec_x nxt, vec_y := vec_y nxt\<rparr>"
      let ?c = "c\<lparr>contextFont := remFont fnt (Suc cur)\<rparr>"
      have nxt_fits: "(vec_x ?nxt < vec_x avail \<and> vec_y ?nxt < vec_y avail) = fitsStrictly b tx fnt avail (Suc cur)"
        by (simp add: fitsStrictly_def)
      from 1(2) True have "f b tx fnt avail (Suc cur) ?ts ?nxt ?c = Some r"
        by (simp add: remFont_def Let_def)
      from 1(1) [OF this] have ih: "?P b tx fnt avail (Suc cur) ?ts ?nxt ?c r" .
      then show ?thesis
      proof
        assume a: "fst r = Suc cur \<and> snd r = ?c \<and> \<not> (vec_x ?nxt < vec_x avail \<and> vec_y ?nxt < vec_y avail)"
        then have "\<not> fitsStrictly b tx fnt avail (Suc cur)" unfolding nxt_fits by simp
        with a True show ?thesis by auto
      next
        assume a: "Suc cur < fst r \<and> snd r = ?c\<lparr>contextFont := remFont fnt (fst r)\<rparr>
           \<and> (vec_x ?nxt < vec_x avail \<and> vec_y ?nxt < vec_y avail)
           \<and> (\<forall>k. Suc cur < k \<and> k < fst r \<longrightarrow> fitsStrictly b tx fnt avail k)
           \<and> \<not> fitsStrictly b tx fnt avail (fst r)"
        then have fs: "fitsStrictly b tx fnt avail (Suc cur)" unfolding nxt_fits by simp
        have "\<forall>k. cur < k \<and> k < fst r \<longrightarrow> fitsStrictly b tx fnt avail k"
        proof (intro allI impI)
          fix k assume "cur < k \<and> k < fst r"
          then have "k = Suc cur \<or> (Suc cur < k \<and> k < fst r)" by auto
          then show "fitsStrictly b tx fnt avail k" using fs a by auto
        qed
        with a True show ?thesis by auto
      qed
    qed
  qed
  then show ?thesis by simp
qed


lemma canvas_overwrite: "(c::Canvas)\<lparr>contextFont := f\<rparr> = \<lparr>contextFont = f\<rparr>"
  by simp

lemma clamp_unfold:
  "clampFontSizeToScreenPadding b txt fnt p c =
     (if fitsAlready b txt fnt (availableArea b p)
      then Some (getCSSFontSize fnt, \<lparr>contextFont = fnt\<rparr>)
      else (case clampLoop b txt fnt (availableArea b p) 0 \<lparr>vec_x = 0, vec_y = 0\<rparr>
                   \<lparr>vec_x = 0, vec_y = 0\<rparr> \<lparr>contextFont = fnt\<rparr> of
              None \<Rightarrow> None
            | Some (n, c') \<Rightarrow> Some (Str (numberToString n @ ''rem''), c')))"
  by (simp add: clampFontSizeToScreenPadding_def availableArea_def fitsAlready_def Let_def canvas_overwrite)

lemma clamp_fits:
  "fitsAlready b txt fnt (availableArea b p) \<Longrightarrow>
   clampFontSizeToScreenPadding b txt fnt p c = Some (getCSSFontSize fnt, \<lparr>contextFont = fnt\<rparr>)"
  by (simp add: clamp_unfold)

lemma clamp_degenerate:
  assumes "\<not> fitsAlready b txt fnt (availableArea b p)"
    and "\<not> (0 < vec_x (availableArea b p) \<and> 0 < vec_y (availableArea b p))"
  shows "clampFontSizeToScreenPadding b txt fnt p c = Some (Str (numberToString 0 @ ''rem''), \<lparr>contextFont = fnt\<rparr>)"
proof -
  have "\<not> (vec_x \<lparr>vec_x = 0::real, vec_y = 0::real\<rparr> < vec_x (availableArea b p)
          \<and> vec_y \<lparr>vec_x = 0::real, vec_y = 0::real\<rparr> < vec_y (availableArea b p))"
    using assms(2) by simp
  then have "clampLoop b txt fnt (availableArea b p) 0 \<lparr>vec_x = 0, vec_y = 0\<rparr>
                   \<lparr>vec_x = 0, vec_y = 0\<rparr> \<lparr>contextFont = fnt\<rparr> = Some (0, \<lparr>contextFont = fnt\<rparr>)"
    by (rule clampLoop_exit)
  then show ?thesis using assms(1) by (simp add: clamp_unfold)
qed

lemma clamp_search:
  assumes "\<not> fitsAlready b txt fnt (availableArea b p)"
    and "0 < vec_x (availableArea b p) \<and> 0 < vec_y (availableArea b p)"
    and "0 < m"
    and "\<forall>k. 0 < k \<and> k < m \<longrightarrow> fitsStrictly b txt fnt (availableArea b p) k"
    and "\<not> fitsStrictly b txt fnt (availableArea b p) m"
  shows "clampFontSizeToScreenPadding b txt fnt p c
       = Some (Str (numberToString m @ ''rem''), \<lparr>contextFont = remFont fnt m\<rparr>)"
proof -
  have "vec_x \<lparr>vec_x = 0::real, vec_y = 0::real\<rparr> < vec_x (availableArea b p)
          \<and> vec_y \<lparr>vec_x = 0::real, vec_y = 0::real\<rparr> < vec_y (availableArea b p)"
    using assms(2) by simp
  from clampLoop_total [OF this assms(3,4,5)]
  have "clampLoop b txt fnt (availableArea b p) 0 \<lparr>vec_x = 0, vec_y = 0\<rparr>
                   \<lparr>vec_x = 0, vec_y = 0\<rparr> \<lparr>contextFont = fnt\<rparr> = Some (m, \<lparr>contextFont = remFont fnt m\<rparr>)"
    by simp
  then show ?thesis using assms(1) by (simp add: clamp_unfold)
qed

lemma clamp_Some_cases:
  assumes "clampFontSizeToScreenPadding b txt fnt p c = Some (r, c')"
  shows "(fitsAlready b txt fnt (availableArea b p) \<and> r = getCSSFontSize fnt \<and> c' = \<lparr>contextFont = fnt\<rparr>)
       \<or> (\<not> fitsAlready b txt fnt (availableArea b p)
           \<and> \<not> (0 < vec_x (availableArea b p) \<and> 0 < vec_y (availableArea b p))
           \<and> r = Str (numberToString 0 @ ''rem'') \<and> c' = \<lparr>contextFont = fnt\<rparr>)
       \<or> (\<not> fitsAlready b txt fnt (availableArea b p)
           \<and> (0 < vec_x (availableArea b p) \<and> 0 < vec_y (availableArea b p))
           \<and> (\<exists>m. 0 < m \<and> r = Str (numberToString m @ ''rem'') \<and> c' = \<lparr>contextFont = remFont fnt m\<rparr>
                  \<and> (\<forall>k. 0 < k \<and> k < m \<longrightarrow> fitsStrictly b txt fnt (availableArea b p) k)
                  \<and> \<not> fitsStrictly b txt fnt (availableArea b p) m))"
proof (cases "fitsAlready b txt fnt (availableArea b p)")
  case True
  with assms show ?thesis by (simp add: clamp_unfold)
next
  case False
  with assms obtain n where
    loop: "clampLoop b txt fnt (availableArea b p) 0 \<lparr>vec_x = 0, vec_y = 0\<rparr>
                   \<lparr>vec_x = 0, vec_y = 0\<rparr> \<lparr>contextFont = fnt\<rparr> = Some (n, c')"
    and r: "r = Str (numberToString n @ ''rem'')"
    by (auto simp: clamp_unfold split: option.splits)
  from clampLoop_partial [OF loop] show ?thesis
  proof
    assume "n = 0 \<and> c' = \<lparr>contextFont = fnt\<rparr> \<and> \<not> (vec_x \<lparr>vec_x = 0::real, vec_y = 0::real\<rparr> < vec_x (availableArea b p)
          \<and> vec_y \<lparr>vec_x = 0::real, vec_y = 0::real\<rparr> < vec_y (availableArea b p))"
    with False r show ?thesis by simp
  next
    assume a: "0 < n \<and> c' = \<lparr>contextFont = fnt\<rparr>\<lparr>contextFont := remFont fnt n\<rparr>
           \<and> (vec_x \<lparr>vec_x = 0::real, vec_y = 0::real\<rparr> < vec_x (availableArea b p) \<and> vec_y \<lparr>vec_x = 0::real, vec_y = 0::real\<rparr> < vec_y (availableArea b p))
           \<and> (\<forall>k. 0 < k \<and> k < n \<longrightarrow> fitsStrictly b txt fnt (availableArea b p) k)
           \<and> \<not> fitsStrictly b txt fnt (availableArea b p) n"
    then have "\<exists>m. 0 < m \<and> r = Str (numberToString m @ ''rem'') \<and> c' = \<lparr>contextFont = remFont fnt m\<rparr>
                  \<and> (\<forall>k. 0 < k \<and> k < m \<longrightarrow> fitsStrictly b txt fnt (availableArea b p) k)
                  \<and> \<not> fitsStrictly b txt fnt (availableArea b p) m"
      using r by (intro exI [of _ n]) simp
    with a False show ?thesis by simp
  qed
qed

lemma clamp_None_iff:
  "clampFontSizeToScreenPadding b txt fnt p c = None \<longleftrightarrow>
     \<not> fitsAlready b txt fnt (availableArea b p)
     \<and> (0 < vec_x (availableArea b p) \<and> 0 < vec_y (availableArea b p))
     \<and> (\<forall>m. 0 < m \<longrightarrow> fitsStrictly b txt fnt (availableArea b p) m)"
proof
  assume n: "clampFontSizeToScreenPadding b txt fnt p c = None"
  have f1: "\<not> fitsAlready b txt fnt (availableArea b p)"
    using n clamp_fits [of b "txt" fnt p c] by auto
  have f2: "0 < vec_x (availableArea b p) \<and> 0 < vec_y (availableArea b p)"
    using n f1 clamp_degenerate [of b "txt" fnt p c] by auto
  have f3: "\<forall>m. 0 < m \<longrightarrow> fitsStrictly b txt fnt (availableArea b p) m"
  proof (rule ccontr)
    assume "\<not> ?thesis"
    then have ex: "\<exists>m. 0 < m \<and> \<not> fitsStrictly b txt fnt (availableArea b p) m" by simp
    define m where "m = (LEAST m. 0 < m \<and> \<not> fitsStrictly b txt fnt (availableArea b p) m)"
    have m: "0 < m \<and> \<not> fitsStrictly b txt fnt (availableArea b p) m"
      unfolding m_def using ex by (rule LeastI_ex)
    have "\<forall>k. 0 < k \<and> k < m \<longrightarrow> fitsStrictly b txt fnt (availableArea b p) k"
      unfolding m_def using not_less_Least by blast
    from clamp_search [OF f1 f2 _ this, of c] m n show False by simp
  qed
  from f1 f2 f3
  show "\<not> fitsAlready b txt fnt (availableArea b p)
     \<and> (0 < vec_x (availableArea b p) \<and> 0 < vec_y (availableArea b p))
     \<and> (\<forall>m. 0 < m \<longrightarrow> fitsStrictly b txt fnt (availableArea b p) m)" by simp
next
  assume a: "\<not> fitsAlready b txt fnt (availableArea b p)
     \<and> (0 < vec_x (availableArea b p) \<and> 0 < vec_y (availableArea b p))
     \<and> (\<forall>m. 0 < m \<longrightarrow> fitsStrictly b txt fnt (availableArea b p) m)"
  show "clampFontSizeToScreenPadding b txt fnt p c = None"
  proof (cases "clampFontSizeToScreenPadding b txt fnt p c")
    case None
    then show ?thesis .
  next
    case (Some rc)
    obtain r c' where "rc = (r, c')" by (cases rc)
    with Some have "clampFontSizeToScreenPadding b txt fnt p c = Some (r, c')" by simp
    from clamp_Some_cases [OF this] a show ?thesis by auto
  qed
qed

section \<open>Number rendering and the concrete browser\<close>

lemma digitChar_isDigit: "d < 10 \<Longrightarrow> isDigit (digitChar d)"
proof -
  assume "d < 10"
  then have "d = 0 \<or> d = 1 \<or> d = 2 \<or> d = 3 \<or> d = 4 \<or> d = 5 \<or> d = 6 \<or> d = 7 \<or> d = 8 \<or> d = 9"
    by arith
  then show ?thesis by (auto simp: digitChar_def isDigit_def)
qed

lemma digitValue_digitChar: "d < 10 \<Longrightarrow> digitValue (digitChar d) = d"
proof -
  assume "d < 10"
  then have "d = 0 \<or> d = 1 \<or> d = 2 \<or> d = 3 \<or> d = 4 \<or> d = 5 \<or> d = 6 \<or> d = 7 \<or> d = 8 \<or> d = 9"
    by arith
  then show ?thesis by (auto simp: digitChar_def digitValue_def isDigit_def)
qed

lemma numberToString_digits: "\<forall>c \<in> set (numberToString n). isDigit c"
proof (induction n rule: numberToString.induct)
  case (1 n)
  show ?case
  proof (cases "n < 10")
    case True
    then show ?thesis by (subst numberToString.simps) (simp add: digitChar_isDigit)
  next
    case False
    with 1 show ?thesis by (subst numberToString.simps) (simp add: digitChar_isDigit)
  qed
qed

lemma digitsToNumber_snoc: "digitsToNumber (ds @ [c]) = 10 * digitsToNumber ds + digitValue c"
  by (simp add: digitsToNumber_def)

lemma digitsToNumber_numberToString: "digitsToNumber (numberToString n) = n"
proof (induction n rule: numberToString.induct)
  case (1 n)
  show ?case
  proof (cases "n < 10")
    case True
    then show ?thesis
      by (subst numberToString.simps) (simp add: digitsToNumber_def digitValue_digitChar)
  next
    case False
    then have "digitsToNumber (numberToString n)
        = 10 * digitsToNumber (numberToString (n div 10)) + digitValue (digitChar (n mod 10))"
      by (subst numberToString.simps) (simp add: digitsToNumber_snoc)
    with 1 False show ?thesis by (simp add: digitValue_digitChar)
  qed
qed

lemma not_isDigit_space: "\<not> isDigit CHR '' ''"
  by (simp add: isDigit_def)

lemma numberToString_no_space: "CHR '' '' \<notin> set (numberToString n)"
proof
  assume "CHR '' '' \<in> set (numberToString n)"
  with numberToString_digits [of n] have "isDigit CHR '' ''" by (rule bspec)
  with not_isDigit_space show False by simp
qed

lemma getCSSFontSize_setCSSFontSize_any:
  assumes "CHR '' '' \<notin> set sz"
  shows "getCSSFontSize (setCSSFontSize fnt sz) = Str sz"
proof -
  have "split_js CHR '' '' (setCSSFontSize fnt sz) = assignIndex1 (split_js CHR '' '' fnt) sz"
    using assms by (rule split_setCSSFontSize)
  moreover have "\<exists>a rest. assignIndex1 xs sz = a # sz # rest" for xs
    by (induction xs sz rule: assignIndex1.induct) auto
  ultimately show ?thesis
    unfolding getCSSFontSize_def by (metis (no_types, lifting) list.simps(5))
qed

lemma getCSSFontSize_remFont: "getCSSFontSize (remFont fnt n) = Str (numberToString n @ ''rem'')"
  unfolding remFont_def
  by (rule getCSSFontSize_setCSSFontSize_any) (simp add: numberToString_no_space)

lemma cssSizeInPx_rem: "cssSizeInPx (numberToString n @ ''rem'') = 16 * real n"
proof -
  have r: "\<not> isDigit CHR ''r''" by (simp add: isDigit_def)
  have d: "\<And>c. c \<in> set (numberToString n) \<Longrightarrow> isDigit c"
    using numberToString_digits [of n] by blast
  have "takeWhile isDigit (numberToString n @ ''rem'') = numberToString n"
    using d r by simp
  moreover have "dropWhile isDigit (numberToString n @ ''rem'') = ''rem''"
    using d r by simp
  ultimately show ?thesis
    by (simp add: cssSizeInPx_def digitsToNumber_numberToString)
qed

lemma fontPx_remFont: "fontPx (remFont fnt n) = 16 * real n"
  by (simp add: fontPx_def getCSSFontSize_remFont cssSizeInPx_rem)

lemma proportional_measures:
  "measuredWidth (proportionalBrowser w h g) txt fnt = fontPx fnt * real (length txt) / 2"
  "fontIntrinsicHeight (proportionalBrowser w h g) fnt = fontPx fnt * 5 / 4"
  "actualHeight (proportionalBrowser w h g) txt fnt = g * fontPx fnt"
  by (simp_all add: measuredWidth_def fontIntrinsicHeight_def actualHeight_def
        proportionalBrowser_def proportionalMeasureText_def)

lemma proportional_area:
  "availableArea (proportionalBrowser w h g) p =
     \<lparr>vec_x = real_of_int w * ((100 - p) / 100), vec_y = real_of_int h * ((100 - p) / 100)\<rparr>"
  by (simp add: availableArea_def proportionalBrowser_def)

lemma proportional_fitsStrictly:
  "fitsStrictly (proportionalBrowser w h g) txt fnt avail n \<longleftrightarrow>
     8 * (real n * real (length txt)) < vec_x avail \<and> 20 * real n < vec_y avail"
  by (simp add: fitsStrictly_def proportional_measures fontPx_remFont)

lemma fontPx_px_examples:
  "fontPx ''bold 160px serif'' = 160" "fontPx ''bold 24px serif'' = 24" "fontPx ''bold 48px serif'' = 48"
  by (simp_all add: fontPx_def getCSSFontSize_def cssSizeInPx_def isDigit_def digitsToNumber_def digitValue_def)

lemma numberToString_examples:
  "numberToString 0 = ''0''" "numberToString 1 = ''1''" "numberToString 2 = ''2''" "numberToString 3 = ''3''"
  by (simp_all add: numberToString.simps digitChar_def)

lemma remFont_examples:
  "remFont ''bold 160px serif'' 3 = ''bold 3rem serif''"
  "remFont ''bold 24px serif'' 2 = ''bold 2rem serif''"
  by (simp_all add: remFont_def setCSSFontSize_def numberToString_examples)

lemma proportional_fits_example:
  "fitsStrictly (proportionalBrowser 100 600 (3 / 4)) ''Jonas'' ''bold 160px serif''
     (availableArea (proportionalBrowser 100 600 (3 / 4)) 0) n \<longleftrightarrow> n \<le> 2"
proof -
  let ?b = "proportionalBrowser 100 600 (3 / 4)"
  have area: "availableArea ?b 0 = \<lparr>vec_x = 100, vec_y = 600\<rparr>" by (simp add: proportional_area)
  have "fitsStrictly ?b ''Jonas'' ''bold 160px serif'' (availableArea ?b 0) n
      \<longleftrightarrow> 40 * real n < 100 \<and> 20 * real n < 600"
    by (simp add: proportional_fitsStrictly area)
  also have "\<dots> \<longleftrightarrow> 40 * n < 100 \<and> 20 * n < 600"
    by (metis (no_types, opaque_lifting) of_nat_less_iff of_nat_mult of_nat_numeral)
  also have "\<dots> \<longleftrightarrow> n \<le> 2" by arith
  finally show ?thesis .
qed

lemma clamp_example_3rem:
  "clampFontSizeToScreenPadding (proportionalBrowser 100 600 (3 / 4)) ''Jonas'' ''bold 160px serif'' 0 c
     = Some (Str ''3rem'', \<lparr>contextFont = ''bold 3rem serif''\<rparr>)"
proof -
  let ?b = "proportionalBrowser 100 600 (3 / 4)"
  let ?avail = "availableArea ?b 0"
  have area: "?avail = \<lparr>vec_x = 100, vec_y = 600\<rparr>" by (simp add: proportional_area)
  have nofit: "\<not> fitsAlready ?b ''Jonas'' ''bold 160px serif'' ?avail"
    by (simp add: fitsAlready_def area proportional_measures fontPx_px_examples)
  have "clampFontSizeToScreenPadding ?b ''Jonas'' ''bold 160px serif'' 0 c
     = Some (Str (numberToString 3 @ ''rem''), \<lparr>contextFont = remFont ''bold 160px serif'' 3\<rparr>)"
  proof (rule clamp_search [OF nofit])
    show "0 < vec_x ?avail \<and> 0 < vec_y ?avail" by (simp add: area)
    show "(0::nat) < 3" by simp
    show "\<forall>k. 0 < k \<and> k < 3 \<longrightarrow> fitsStrictly ?b ''Jonas'' ''bold 160px serif'' ?avail k"
      unfolding proportional_fits_example by simp
    show "\<not> fitsStrictly ?b ''Jonas'' ''bold 160px serif'' ?avail 3"
      unfolding proportional_fits_example by simp
  qed
  then show ?thesis by (simp add: numberToString_examples remFont_examples)
qed

section \<open>Claims about clampFontSizeToScreenPadding\<close>

text \<open>
  C1 (the code departs from the claim). With a viewport of 100 by 600 pixels and no
  padding, ``Jonas'' at ``bold 160px serif'' is 400 pixels wide and does not fit. At
  \<open>n\<close> rem the text is \<open>40 n\<close> pixels wide and \<open>20 n\<close> pixels high (the glyph box is
  lower than the font box, so both readings of the height agree), so the sizes that fit
  strictly are exactly those up to 2 rem. The function returns ``3rem'': the counter
  is returned after the increment that made the measurement too large.
\<close>

theorem clamp_returns_first_oversized_size:
  "clampFontSizeToScreenPadding (proportionalBrowser 100 600 (3 / 4)) ''Jonas'' ''bold 160px serif'' 0 freshCanvas
     = Some (Str ''3rem'', \<lparr>contextFont = ''bold 3rem serif''\<rparr>)
   \<and> \<not> (measuredWidth (proportionalBrowser 100 600 (3 / 4)) ''Jonas'' ''bold 160px serif''
          \<le> vec_x (availableArea (proportionalBrowser 100 600 (3 / 4)) 0))
   \<and> (\<forall>n. (measuredWidth (proportionalBrowser 100 600 (3 / 4)) ''Jonas'' (remFont ''bold 160px serif'' n)
              < vec_x (availableArea (proportionalBrowser 100 600 (3 / 4)) 0)
            \<and> specFitHeight (proportionalBrowser 100 600 (3 / 4)) ''Jonas'' (remFont ''bold 160px serif'' n)
              < vec_y (availableArea (proportionalBrowser 100 600 (3 / 4)) 0))
          \<longleftrightarrow> n \<le> 2)"
proof -
  let ?b = "proportionalBrowser 100 600 (3 / 4)"
  let ?avail = "availableArea ?b 0"
  have area: "?avail = \<lparr>vec_x = 100, vec_y = 600\<rparr>" by (simp add: proportional_area)
  have res: "clampFontSizeToScreenPadding ?b ''Jonas'' ''bold 160px serif'' 0 freshCanvas
     = Some (Str ''3rem'', \<lparr>contextFont = ''bold 3rem serif''\<rparr>)"
    by (rule clamp_example_3rem)
  have base: "\<not> (measuredWidth ?b ''Jonas'' ''bold 160px serif'' \<le> vec_x ?avail)"
    by (simp add: area proportional_measures fontPx_px_examples)
  have spec: "(measuredWidth ?b ''Jonas'' (remFont ''bold 160px serif'' n) < vec_x ?avail
            \<and> specFitHeight ?b ''Jonas'' (remFont ''bold 160px serif'' n) < vec_y ?avail)
          \<longleftrightarrow> n \<le> 2" for n
  proof -
    have "specFitHeight ?b ''Jonas'' (remFont ''bold 160px serif'' n)
        = fontIntrinsicHeight ?b (remFont ''bold 160px serif'' n)"
      by (simp add: specFitHeight_def proportional_measures fontPx_remFont max_def)
    then show ?thesis using proportional_fits_example [of n] by (simp add: fitsStrictly_def)
  qed
  from spec have all: "\<forall>n. (measuredWidth ?b ''Jonas'' (remFont ''bold 160px serif'' n) < vec_x ?avail
            \<and> specFitHeight ?b ''Jonas'' (remFont ''bold 160px serif'' n) < vec_y ?avail)
          \<longleftrightarrow> n \<le> 2" by (rule allI)
  show ?thesis by (rule conjI [OF res conjI [OF base all]])
qed

text \<open>
  C5 (the code departs from the claim). With a viewport of 50 by 600 pixels and no
  padding, ``Jonas'' at ``bold 24px serif'' is 60 pixels wide and does not fit. The
  function returns ``2rem'', which is 32 pixels at 16 pixels to the rem: larger than
  the 24 pixels handed in, and the text is then 80 pixels wide instead of 60.
\<close>

theorem clamp_upscales_example:
  "clampFontSizeToScreenPadding (proportionalBrowser 50 600 (3 / 4)) ''Jonas'' ''bold 24px serif'' 0 freshCanvas
     = Some (Str ''2rem'', \<lparr>contextFont = ''bold 2rem serif''\<rparr>)
   \<and> cssSizeInPx ''24px'' = 24 \<and> cssSizeInPx ''2rem'' = 32
   \<and> measuredWidth (proportionalBrowser 50 600 (3 / 4)) ''Jonas'' ''bold 24px serif'' = 60
   \<and> measuredWidth (proportionalBrowser 50 600 (3 / 4)) ''Jonas'' ''bold 2rem serif'' = 80"
proof -
  let ?b = "proportionalBrowser 50 600 (3 / 4)"
  let ?avail = "availableArea ?b 0"
  have area: "?avail = \<lparr>vec_x = 50, vec_y = 600\<rparr>" by (simp add: proportional_area)
  have nofit: "\<not> fitsAlready ?b ''Jonas'' ''bold 24px serif'' ?avail"
    by (simp add: fitsAlready_def area proportional_measures fontPx_px_examples)
  have fits: "fitsStrictly ?b ''Jonas'' ''bold 24px serif'' ?avail n \<longleftrightarrow> 40 * real n < 50 \<and> 20 * real n < 600" for n
    by (simp add: proportional_fitsStrictly area)
  have "clampFontSizeToScreenPadding ?b ''Jonas'' ''bold 24px serif'' 0 freshCanvas
     = Some (Str (numberToString 2 @ ''rem''), \<lparr>contextFont = remFont ''bold 24px serif'' 2\<rparr>)"
  proof (rule clamp_search [OF nofit])
    show "0 < vec_x ?avail \<and> 0 < vec_y ?avail" by (simp add: area)
    show "(0::nat) < 2" by simp
    show "\<forall>k. 0 < k \<and> k < 2 \<longrightarrow> fitsStrictly ?b ''Jonas'' ''bold 24px serif'' ?avail k"
    proof (intro allI impI)
      fix k :: nat assume "0 < k \<and> k < 2"
      then have "k = 1" by arith
      then show "fitsStrictly ?b ''Jonas'' ''bold 24px serif'' ?avail k" unfolding fits by simp
    qed
    show "\<not> fitsStrictly ?b ''Jonas'' ''bold 24px serif'' ?avail 2"
      unfolding fits by simp
  qed
  then have res: "clampFontSizeToScreenPadding ?b ''Jonas'' ''bold 24px serif'' 0 freshCanvas
     = Some (Str ''2rem'', \<lparr>contextFont = ''bold 2rem serif''\<rparr>)"
    by (simp add: numberToString_examples remFont_examples)
  have px: "cssSizeInPx ''24px'' = 24" "cssSizeInPx ''2rem'' = 32"
    by (simp_all add: cssSizeInPx_def isDigit_def digitsToNumber_def digitValue_def)
  have f2: "fontPx ''bold 2rem serif'' = 32"
    using fontPx_remFont [of "''bold 24px serif''" 2] by (simp add: remFont_examples)
  have w: "measuredWidth ?b ''Jonas'' ''bold 24px serif'' = 60"
     "measuredWidth ?b ''Jonas'' ''bold 2rem serif'' = 80"
    by (simp_all add: proportional_measures fontPx_px_examples f2)
  show ?thesis using res px w by simp
qed

text \<open>
  C2, counterexample. In a browser whose glyph box is higher than its font box, with a
  viewport of 200 by 80 pixels, ``Jonas'' at ``bold 48px serif'' has font-intrinsic
  height 60 and actual height 96, so the height of the specification is 96 and
  exceeds the 80 pixels available. The function nevertheless takes the text as
  fitting and returns the size handed in: the height it compared was 60.
\<close>

theorem clamp_fit_height_counterexample:
  "clampFontSizeToScreenPadding (proportionalBrowser 200 80 2) ''Jonas'' ''bold 48px serif'' 0 freshCanvas
     = Some (Str ''48px'', \<lparr>contextFont = ''bold 48px serif''\<rparr>)
   \<and> vec_y (availableArea (proportionalBrowser 200 80 2) 0) = 80
   \<and> fontIntrinsicHeight (proportionalBrowser 200 80 2) ''bold 48px serif'' = 60
   \<and> specFitHeight (proportionalBrowser 200 80 2) ''Jonas'' ''bold 48px serif'' = 96"
proof -
  let ?b = "proportionalBrowser 200 80 2"
  have area: "availableArea ?b 0 = \<lparr>vec_x = 200, vec_y = 80\<rparr>" by (simp add: proportional_area)
  have "fitsAlready ?b ''Jonas'' ''bold 48px serif'' (availableArea ?b 0)"
    by (simp add: fitsAlready_def area proportional_measures fontPx_px_examples)
  then have "clampFontSizeToScreenPadding ?b ''Jonas'' ''bold 48px serif'' 0 freshCanvas
     = Some (getCSSFontSize ''bold 48px serif'', \<lparr>contextFont = ''bold 48px serif''\<rparr>)"
    by (rule clamp_fits)
  moreover have "getCSSFontSize ''bold 48px serif'' = Str ''48px''"
    by (simp add: getCSSFontSize_def)
  moreover have "fontIntrinsicHeight ?b ''bold 48px serif'' = 60"
    by (simp add: proportional_measures fontPx_px_examples)
  moreover have "specFitHeight ?b ''Jonas'' ''bold 48px serif'' = 96"
    by (simp add: specFitHeight_def proportional_measures fontPx_px_examples)
  ultimately show ?thesis using area by simp
qed

text \<open>
  C2, as amended. The height in the fit test is the font-intrinsic height alone
  (\<^verbatim>\<open>fontBoundingBoxAscent + fontBoundingBoxDescent\<close> of the letter ``A'' at the
  font), in the test of step [2] and at every step of the search; the actual height
  of the text does not occur. The function is determined by these comparisons: it
  returns the size handed in when width and font-intrinsic height are at most the
  available area; otherwise ``0rem'' when the available area is not positive on both
  axes; otherwise the first size from 1 rem upwards whose width or font-intrinsic
  height is not strictly below the available area; and it does not return when there
  is no such size.
\<close>

theorem clamp_fit_test_uses_font_height:
  "clampFontSizeToScreenPadding b txt fnt p c =
     (if measuredWidth b txt fnt \<le> vec_x (availableArea b p)
         \<and> fontIntrinsicHeight b fnt \<le> vec_y (availableArea b p)
      then Some (getCSSFontSize fnt, \<lparr>contextFont = fnt\<rparr>)
      else if \<not> (0 < vec_x (availableArea b p) \<and> 0 < vec_y (availableArea b p))
      then Some (Str ''0rem'', \<lparr>contextFont = fnt\<rparr>)
      else if \<exists>m. 0 < m \<and> \<not> (measuredWidth b txt (remFont fnt m) < vec_x (availableArea b p)
                             \<and> fontIntrinsicHeight b (remFont fnt m) < vec_y (availableArea b p))
      then Some (Str (numberToString
                        (LEAST m. 0 < m \<and> \<not> (measuredWidth b txt (remFont fnt m) < vec_x (availableArea b p)
                             \<and> fontIntrinsicHeight b (remFont fnt m) < vec_y (availableArea b p))) @ ''rem''),
                 \<lparr>contextFont = remFont fnt
                        (LEAST m. 0 < m \<and> \<not> (measuredWidth b txt (remFont fnt m) < vec_x (availableArea b p)
                             \<and> fontIntrinsicHeight b (remFont fnt m) < vec_y (availableArea b p)))\<rparr>)
      else None)"
proof -
  let ?avail = "availableArea b p"
  let ?Q = "\<lambda>m. 0 < m \<and> \<not> fitsStrictly b txt fnt ?avail m"
  have Q: "(0 < m \<and> \<not> (measuredWidth b txt (remFont fnt m) < vec_x ?avail
                             \<and> fontIntrinsicHeight b (remFont fnt m) < vec_y ?avail)) = ?Q m" for m
    by (simp add: fitsStrictly_def)
  have A: "(measuredWidth b txt fnt \<le> vec_x ?avail \<and> fontIntrinsicHeight b fnt \<le> vec_y ?avail)
         = fitsAlready b txt fnt ?avail"
    by (simp add: fitsAlready_def)
  show ?thesis
    unfolding Q A
  proof (cases "fitsAlready b txt fnt ?avail")
    case True
    then show "clampFontSizeToScreenPadding b txt fnt p c =
     (if fitsAlready b txt fnt ?avail then Some (getCSSFontSize fnt, \<lparr>contextFont = fnt\<rparr>)
      else if \<not> (0 < vec_x ?avail \<and> 0 < vec_y ?avail) then Some (Str ''0rem'', \<lparr>contextFont = fnt\<rparr>)
      else if \<exists>m. ?Q m then Some (Str (numberToString (LEAST m. ?Q m) @ ''rem''), \<lparr>contextFont = remFont fnt (LEAST m. ?Q m)\<rparr>)
      else None)"
      by (simp add: clamp_fits)
  next
    case nf: False
    show "clampFontSizeToScreenPadding b txt fnt p c =
     (if fitsAlready b txt fnt ?avail then Some (getCSSFontSize fnt, \<lparr>contextFont = fnt\<rparr>)
      else if \<not> (0 < vec_x ?avail \<and> 0 < vec_y ?avail) then Some (Str ''0rem'', \<lparr>contextFont = fnt\<rparr>)
      else if \<exists>m. ?Q m then Some (Str (numberToString (LEAST m. ?Q m) @ ''rem''), \<lparr>contextFont = remFont fnt (LEAST m. ?Q m)\<rparr>)
      else None)"
    proof (cases "0 < vec_x ?avail \<and> 0 < vec_y ?avail")
      case False
      with nf show ?thesis
        using clamp_degenerate [OF nf False, of c] by (simp add: numberToString_examples)
    next
      case pos: True
      show ?thesis
      proof (cases "\<exists>m. ?Q m")
        case True
        then have m: "?Q (LEAST m. ?Q m)" by (rule LeastI_ex)
        have "\<forall>k. 0 < k \<and> k < (LEAST m. ?Q m) \<longrightarrow> fitsStrictly b txt fnt ?avail k"
          using not_less_Least [of _ ?Q] by blast
        from clamp_search [OF nf pos _ this, of c] m
        have "clampFontSizeToScreenPadding b txt fnt p c
           = Some (Str (numberToString (LEAST m. ?Q m) @ ''rem''), \<lparr>contextFont = remFont fnt (LEAST m. ?Q m)\<rparr>)"
          by simp
        with nf pos True show ?thesis by simp
      next
        case False
        then have "\<forall>m. 0 < m \<longrightarrow> fitsStrictly b txt fnt ?avail m" by blast
        with nf pos have "clampFontSizeToScreenPadding b txt fnt p c = None"
          by (simp add: clamp_None_iff)
        with nf pos False show ?thesis by simp
      qed
    qed
  qed
qed

text \<open>
  C6, counterexample. In a viewport of width 0 the available width is 0; the empty
  text is 0 pixels wide and its font box fits the height, so step [2] returns the
  size handed in, ``48px'', and not a minimal size.
\<close>

theorem clamp_degenerate_counterexample:
  "vec_x (availableArea (proportionalBrowser 0 600 (3 / 4)) 0) = 0
   \<and> clampFontSizeToScreenPadding (proportionalBrowser 0 600 (3 / 4)) [] ''bold 48px serif'' 0 freshCanvas
     = Some (Str ''48px'', \<lparr>contextFont = ''bold 48px serif''\<rparr>)"
proof -
  let ?b = "proportionalBrowser 0 600 (3 / 4)"
  have area: "availableArea ?b 0 = \<lparr>vec_x = 0, vec_y = 600\<rparr>" by (simp add: proportional_area)
  have "fitsAlready ?b [] ''bold 48px serif'' (availableArea ?b 0)"
    by (simp add: fitsAlready_def area proportional_measures fontPx_px_examples)
  then have "clampFontSizeToScreenPadding ?b [] ''bold 48px serif'' 0 freshCanvas
     = Some (getCSSFontSize ''bold 48px serif'', \<lparr>contextFont = ''bold 48px serif''\<rparr>)"
    by (rule clamp_fits)
  moreover have "getCSSFontSize ''bold 48px serif'' = Str ''48px''"
    by (simp add: getCSSFontSize_def)
  ultimately show ?thesis using area by simp
qed

text \<open>
  C6, as amended. When the available area is zero or negative on an axis, the function
  returns after step [2] or after the loop test has failed once, without a single
  pass through the loop body: it returns ``0rem'', unless the text at the font handed
  in is no larger than that area on both axes, in which case it returns the size
  handed in. In particular it returns ``0rem'' whenever the measured width and the
  font-intrinsic height at the font handed in are positive.
\<close>

theorem clamp_degenerate_area:
  assumes "vec_x (availableArea b p) \<le> 0 \<or> vec_y (availableArea b p) \<le> 0"
  shows "clampFontSizeToScreenPadding b txt fnt p c =
           Some (if measuredWidth b txt fnt \<le> vec_x (availableArea b p)
                    \<and> fontIntrinsicHeight b fnt \<le> vec_y (availableArea b p)
                 then getCSSFontSize fnt else Str ''0rem'',
                 \<lparr>contextFont = fnt\<rparr>)
       \<and> (0 < measuredWidth b txt fnt \<and> 0 < fontIntrinsicHeight b fnt \<longrightarrow>
            clampFontSizeToScreenPadding b txt fnt p c = Some (Str ''0rem'', \<lparr>contextFont = fnt\<rparr>))"
proof -
  have deg: "\<not> (0 < vec_x (availableArea b p) \<and> 0 < vec_y (availableArea b p))"
    using assms by auto
  have first: "clampFontSizeToScreenPadding b txt fnt p c =
           Some (if measuredWidth b txt fnt \<le> vec_x (availableArea b p)
                    \<and> fontIntrinsicHeight b fnt \<le> vec_y (availableArea b p)
                 then getCSSFontSize fnt else Str ''0rem'',
                 \<lparr>contextFont = fnt\<rparr>)"
  proof (cases "fitsAlready b txt fnt (availableArea b p)")
    case True
    then show ?thesis using clamp_fits [OF True, of c] by (simp add: fitsAlready_def)
  next
    case False
    moreover have "clampFontSizeToScreenPadding b txt fnt p c = Some (Str ''0rem'', \<lparr>contextFont = fnt\<rparr>)"
      using clamp_degenerate [OF False deg, of c] by (simp add: numberToString_examples)
    ultimately show ?thesis unfolding fitsAlready_def by (simp only: if_False)
  qed
  have second: "0 < measuredWidth b txt fnt \<and> 0 < fontIntrinsicHeight b fnt \<longrightarrow>
            clampFontSizeToScreenPadding b txt fnt p c = Some (Str ''0rem'', \<lparr>contextFont = fnt\<rparr>)"
  proof
    assume "0 < measuredWidth b txt fnt \<and> 0 < fontIntrinsicHeight b fnt"
    with assms have "\<not> (measuredWidth b txt fnt \<le> vec_x (availableArea b p)
                    \<and> fontIntrinsicHeight b fnt \<le> vec_y (availableArea b p))"
      by auto
    with first show "clampFontSizeToScreenPadding b txt fnt p c = Some (Str ''0rem'', \<lparr>contextFont = fnt\<rparr>)"
      by (simp only: if_False)
  qed
  from first second show ?thesis by (rule conjI)
qed

theorem clamp_degenerate_area_witness:
  "(vec_x (availableArea (proportionalBrowser 0 600 (3 / 4)) 0) \<le> 0
      \<or> vec_y (availableArea (proportionalBrowser 0 600 (3 / 4)) 0) \<le> 0)
   \<and> 0 < measuredWidth (proportionalBrowser 0 600 (3 / 4)) ''Jonas'' ''bold 48px serif''
   \<and> 0 < fontIntrinsicHeight (proportionalBrowser 0 600 (3 / 4)) ''bold 48px serif''
   \<and> clampFontSizeToScreenPadding (proportionalBrowser 0 600 (3 / 4)) ''Jonas'' ''bold 48px serif'' 0 freshCanvas
       = Some (Str ''0rem'', \<lparr>contextFont = ''bold 48px serif''\<rparr>)"
proof -
  let ?b = "proportionalBrowser 0 600 (3 / 4)"
  have area: "availableArea ?b 0 = \<lparr>vec_x = 0, vec_y = 600\<rparr>" by (simp add: proportional_area)
  have h: "vec_x (availableArea ?b 0) \<le> 0 \<or> vec_y (availableArea ?b 0) \<le> 0"
    by (simp add: area)
  have pos: "0 < measuredWidth ?b ''Jonas'' ''bold 48px serif'' \<and> 0 < fontIntrinsicHeight ?b ''bold 48px serif''"
    by (simp add: proportional_measures fontPx_px_examples)
  from clamp_degenerate_area [OF h, of "''Jonas''" "''bold 48px serif''" freshCanvas] pos
  have "clampFontSizeToScreenPadding ?b ''Jonas'' ''bold 48px serif'' 0 freshCanvas
       = Some (Str ''0rem'', \<lparr>contextFont = ''bold 48px serif''\<rparr>)"
    by blast
  with h pos show ?thesis by blast
qed

text \<open>
  C7. A call that returns leaves the canvas in a state from which the same call returns
  the same size string (and leaves the canvas as it found it): every measurement
  assigns the context's font before measuring, and the search starts again from its
  initial counter.
\<close>

theorem clamp_twice_same_result:
  assumes "clampFontSizeToScreenPadding b txt fnt p c = Some (r, c')"
  shows "clampFontSizeToScreenPadding b txt fnt p c' = Some (r, c')"
proof -
  have "clampFontSizeToScreenPadding b txt fnt p c' = clampFontSizeToScreenPadding b txt fnt p c"
    by (simp add: clamp_unfold)
  with assms show ?thesis by simp
qed

theorem clamp_twice_same_result_witness:
  "clampFontSizeToScreenPadding (proportionalBrowser 100 600 (3 / 4)) ''Jonas'' ''bold 160px serif'' 0 freshCanvas
     = Some (Str ''3rem'', \<lparr>contextFont = ''bold 3rem serif''\<rparr>)
   \<and> clampFontSizeToScreenPadding (proportionalBrowser 100 600 (3 / 4)) ''Jonas'' ''bold 160px serif'' 0
       \<lparr>contextFont = ''bold 3rem serif''\<rparr>
     = Some (Str ''3rem'', \<lparr>contextFont = ''bold 3rem serif''\<rparr>)"
proof -
  have h: "clampFontSizeToScreenPadding (proportionalBrowser 100 600 (3 / 4)) ''Jonas'' ''bold 160px serif'' 0 freshCanvas
     = Some (Str ''3rem'', \<lparr>contextFont = ''bold 3rem serif''\<rparr>)"
    by (rule clamp_example_3rem)
  show ?thesis using h clamp_twice_same_result [OF h] by simp
qed


section \<open>Rounding to a double\<close>

lemma binaryExponent_bounds:
  "0 < x \<Longrightarrow> 2 powi binaryExponent x \<le> x \<and> x < 2 powi (binaryExponent x + 1)"
proof (induction x rule: binaryExponent.induct)
  case (1 x)
  consider "2 \<le> x" | "x < 1" | "1 \<le> x" "x < 2" by linarith
  then show ?case
  proof cases
    case 1
    then have e: "binaryExponent x = binaryExponent (x / 2) + 1"
      using "1.prems" by (subst binaryExponent.simps) simp
    have "2 powi binaryExponent (x / 2) \<le> x / 2 \<and> x / 2 < 2 powi (binaryExponent (x / 2) + 1)"
      using "1.IH"(1) "1.prems" 1 by simp
    then show ?thesis unfolding e by (simp add: power_int_add)
  next
    case 2
    then have e: "binaryExponent x = binaryExponent (2 * x) - 1"
      using "1.prems" by (subst binaryExponent.simps) simp
    have "2 powi binaryExponent (2 * x) \<le> 2 * x \<and> 2 * x < 2 powi (binaryExponent (2 * x) + 1)"
      using "1.IH"(2) "1.prems" 2 by simp
    then show ?thesis unfolding e by (simp add: power_int_add power_int_diff)
  next
    case 3
    then have e: "binaryExponent x = 0"
      using "1.prems" by (subst binaryExponent.simps) simp
    show ?thesis unfolding e using 3 by simp
  qed
qed


lemma pow2_shift: "(2::real) powi (a + int n) = 2 powi a * 2 ^ n"
  by (simp add: power_int_add)

lemma pow2_shift_eq: "b = a + int n \<Longrightarrow> (2::real) powi b = 2 powi a * 2 ^ n"
  by (simp add: pow2_shift)

lemma pow2_factor_pos: "0 < real_of_int m * 2 powi k \<Longrightarrow> 0 < m"
proof -
  assume a: "0 < real_of_int m * 2 powi k"
  have "0 < (2::real) powi k" by simp
  from zero_less_mult_pos2 [OF a this] show "0 < m" by simp
qed

lemma pow2_mono: "a \<le> b \<Longrightarrow> (2::real) powi a \<le> 2 powi b"
proof -
  assume "a \<le> b"
  then obtain n where b: "b = a + int n" using zle_iff_zadd by blast
  have "(2::real) powi a * 1 \<le> 2 powi a * 2 ^ n"
    by (intro mult_left_mono) simp_all
  then show ?thesis unfolding b pow2_shift by simp
qed

lemma pow2_less_imp: "(2::real) powi a < 2 powi b \<Longrightarrow> a < b"
  using pow2_mono [of b a] by (cases "a < b") simp_all

lemma binaryExponent_unique:
  assumes "2 powi e \<le> x" and "x < 2 powi (e + 1)"
  shows "binaryExponent x = e"
proof -
  have "0 < (2::real) powi e" by simp
  then have x: "0 < x" using assms(1) by linarith
  note b = binaryExponent_bounds [OF x]
  have "2 powi e < (2::real) powi (binaryExponent x + 1)" using assms(1) b by linarith
  then have "e < binaryExponent x + 1" by (rule pow2_less_imp)
  moreover have "2 powi binaryExponent x < (2::real) powi (e + 1)" using assms(2) b by linarith
  then have "binaryExponent x < e + 1" by (rule pow2_less_imp)
  ultimately show ?thesis by simp
qed

lemma roundHalfEven_near:
  assumes "\<bar>q - real_of_int n\<bar> < 1 / 2"
  shows "roundHalfEven q = n"
proof -
  consider "real_of_int n \<le> q" | "q < real_of_int n" by linarith
  then show ?thesis
  proof cases
    case 1
    then have "\<lfloor>q\<rfloor> = n" using assms by (simp add: floor_eq_iff)
    then show ?thesis using assms 1 by (simp add: roundHalfEven_def Let_def)
  next
    case 2
    then have f: "\<lfloor>q\<rfloor> = n - 1" using assms by (simp add: floor_eq_iff)
    have "1 / 2 < q - real_of_int (n - 1)" using assms 2 by simp
    then show ?thesis unfolding roundHalfEven_def Let_def f by simp
  qed
qed

lemma roundHalfEven_of_int [simp]: "roundHalfEven (real_of_int n) = n"
  by (rule roundHalfEven_near) simp

lemma roundHalfEven_bounds: "\<lfloor>q\<rfloor> \<le> roundHalfEven q \<and> roundHalfEven q \<le> \<lceil>q\<rceil>"
proof (cases "q = real_of_int \<lfloor>q\<rfloor>")
  case True
  then have "roundHalfEven q = \<lfloor>q\<rfloor>" by (metis roundHalfEven_of_int)
  then show ?thesis by (simp add: floor_le_ceiling)
next
  case False
  then have "\<lceil>q\<rceil> = \<lfloor>q\<rfloor> + 1" by (simp add: ceiling_altdef)
  then show ?thesis by (simp add: roundHalfEven_def Let_def)
qed

lemma roundHalfEven_minus: "roundHalfEven (- q) = - roundHalfEven q"
proof (cases "q = real_of_int \<lfloor>q\<rfloor>")
  case True
  then obtain n where q: "q = real_of_int n" ..
  have "roundHalfEven (real_of_int (- n)) = - n" by (rule roundHalfEven_of_int)
  then show ?thesis unfolding q by simp
next
  case False
  define f where "f = \<lfloor>q\<rfloor>"
  define d where "d = q - real_of_int f"
  have c: "\<lceil>q\<rceil> = f + 1" using False unfolding f_def by (simp add: ceiling_altdef)
  have fm: "\<lfloor>- q\<rfloor> = - f - 1" using c by (simp add: floor_minus)
  have dm: "- q - real_of_int (- f - 1) = 1 - d" unfolding d_def by simp
  have p: "roundHalfEven q = (if d < 1 / 2 then f else if 1 / 2 < d then f + 1 else if even f then f else f + 1)"
    unfolding roundHalfEven_def Let_def f_def [symmetric] d_def [symmetric] ..
  have m: "roundHalfEven (- q) =
      (if 1 - d < 1 / 2 then - f - 1 else if 1 / 2 < 1 - d then - f - 1 + 1
       else if even (- f - 1) then - f - 1 else - f - 1 + 1)"
    unfolding roundHalfEven_def Let_def fm dm ..
  consider "d < 1 / 2" | "1 / 2 < d" | "d = 1 / 2" by linarith
  then show ?thesis
  proof cases
    case 1
    then show ?thesis unfolding p m by simp
  next
    case 2
    then show ?thesis unfolding p m by simp
  next
    case 3
    then show ?thesis unfolding p m by simp
  qed
qed

lemma ulp_pos: "0 < ulp x"
  by (simp add: ulp_def)

lemma ulp_minus [simp]: "ulp (- x) = ulp x"
  by (simp add: ulp_def)

lemma roundDouble_minus: "roundDouble (- x) = - roundDouble x"
  by (simp add: roundDouble_def roundHalfEven_minus)

lemma roundDouble_zero [simp]: "roundDouble 0 = 0"
  by (simp add: roundDouble_def)


lemma ulp_of_pos:
  assumes "0 < x"
  shows "ulp x = 2 powi (max (binaryExponent x) (- 1022) - 52)"
  using assms by (simp add: ulp_def)

lemma scaled_upper:
  assumes "0 < x"
  shows "x / ulp x < 2 ^ 53"
proof -
  define e where "e = binaryExponent x"
  define e' where "e' = max e (- 1022)"
  have u: "ulp x = 2 powi (e' - 52)" unfolding e'_def e_def by (rule ulp_of_pos [OF assms])
  have "x < 2 powi (e + 1)" unfolding e_def using binaryExponent_bounds [OF assms] by simp
  also have "\<dots> \<le> 2 powi (e' + 1)" by (rule pow2_mono) (simp add: e'_def)
  also have "\<dots> = 2 powi (e' - 52) * 2 ^ 53" by (rule pow2_shift_eq) simp
  finally have "x < ulp x * 2 ^ 53" unfolding u .
  then show ?thesis using ulp_pos [of x] by (simp add: pos_divide_less_eq mult.commute)
qed

lemma scaled_lower:
  assumes "0 < x" and "- 1022 \<le> binaryExponent x"
  shows "2 ^ 52 \<le> x / ulp x"
proof -
  define e where "e = binaryExponent x"
  have u: "ulp x = 2 powi (e - 52)" unfolding e_def using ulp_of_pos [OF assms(1)] assms(2) by simp
  have "(2::real) powi e = 2 powi (e - 52) * 2 ^ 52" by (rule pow2_shift_eq) simp
  then have "2 powi (e - 52) * 2 ^ 52 = (2::real) powi e" by simp
  also have "\<dots> \<le> x" unfolding e_def using binaryExponent_bounds [OF assms(1)] by simp
  finally have "ulp x * 2 ^ 52 \<le> x" unfolding u .
  then show ?thesis using ulp_pos [of x] by (simp add: pos_le_divide_eq mult.commute)
qed

lemma double_on_grid:
  assumes "0 < x" and "0 < m" and "m < 2 ^ 53" and "- 1074 \<le> k"
    and "binaryExponent x < - 1022 \<or> 2 powi binaryExponent x \<le> real_of_int m * 2 powi k"
  shows "\<exists>N. real_of_int m * 2 powi k = real_of_int N * ulp x"
proof -
  define e where "e = binaryExponent x"
  define e' where "e' = max e (- 1022)"
  have u: "ulp x = 2 powi (e' - 52)" unfolding e'_def e_def by (rule ulp_of_pos [OF assms(1)])
  have le: "e' - 52 \<le> k"
  proof (cases "e < - 1022")
    case True
    then show ?thesis using assms(4) by (simp add: e'_def)
  next
    case False
    with assms(5) have "2 powi e \<le> real_of_int m * 2 powi k" unfolding e_def by simp
    also have "\<dots> < 2 ^ 53 * 2 powi k"
    proof (rule mult_strict_right_mono)
      have "real_of_int m < real_of_int (2 ^ 53)" using assms(3) by (simp only: of_int_less_iff)
      then show "real_of_int m < 2 ^ 53" by simp
    qed simp
    also have "\<dots> = 2 powi (k + 53)" using pow2_shift_eq [of "k + 53" k 53] by simp
    finally have "e < k + 53" by (rule pow2_less_imp)
    then show ?thesis using False by (simp add: e'_def)
  qed
  then obtain n where k: "k = (e' - 52) + int n" using zle_iff_zadd by blast
  have "real_of_int m * 2 powi k = real_of_int (m * 2 ^ n) * ulp x"
    unfolding u k pow2_shift by simp
  then show ?thesis ..
qed

lemma roundDouble_pos_le:
  assumes "0 < x" and "m < 2 ^ 53" and "- 1074 \<le> k" and "x \<le> real_of_int m * 2 powi k"
  shows "roundDouble x \<le> real_of_int m * 2 powi k"
proof -
  have "0 < real_of_int m * 2 powi k" using assms(1,4) by linarith
  then have m: "0 < m" by (rule pow2_factor_pos)
  have "2 powi binaryExponent x \<le> real_of_int m * 2 powi k"
    using binaryExponent_bounds [OF assms(1)] assms(4) by linarith
  then obtain N where N: "real_of_int m * 2 powi k = real_of_int N * ulp x"
    using double_on_grid [OF assms(1) m assms(2,3)] by blast
  have "x / ulp x \<le> real_of_int N" using assms(4) ulp_pos [of x] unfolding N
    by (simp add: pos_divide_le_eq)
  then have "\<lceil>x / ulp x\<rceil> \<le> N" by (simp only: ceiling_le_iff)
  then have "roundHalfEven (x / ulp x) \<le> N" using roundHalfEven_bounds [of "x / ulp x"] by linarith
  then have "real_of_int (roundHalfEven (x / ulp x)) \<le> real_of_int N" by (simp only: of_int_le_iff)
  then have "real_of_int (roundHalfEven (x / ulp x)) * ulp x \<le> real_of_int N * ulp x"
    using ulp_pos [of x] by (simp only: mult_le_cancel_right_pos)
  then show ?thesis unfolding N using assms(1) by (simp add: roundDouble_def)
qed

lemma roundDouble_pos_ge:
  assumes "0 < x" and "0 < m" and "m < 2 ^ 53" and "- 1074 \<le> k" and "real_of_int m * 2 powi k \<le> x"
  shows "real_of_int m * 2 powi k \<le> roundDouble x"
proof -
  have r: "roundDouble x = real_of_int (roundHalfEven (x / ulp x)) * ulp x"
    using assms(1) by (simp add: roundDouble_def)
  show ?thesis
  proof (cases "binaryExponent x < - 1022 \<or> 2 powi binaryExponent x \<le> real_of_int m * 2 powi k")
    case True
    then obtain N where N: "real_of_int m * 2 powi k = real_of_int N * ulp x"
      using double_on_grid [OF assms(1,2,3,4)] by blast
    have "real_of_int N \<le> x / ulp x" using assms(5) ulp_pos [of x] unfolding N
      by (simp add: pos_le_divide_eq)
    then have "N \<le> \<lfloor>x / ulp x\<rfloor>" by (simp only: le_floor_iff)
    then have "N \<le> roundHalfEven (x / ulp x)" using roundHalfEven_bounds [of "x / ulp x"] by linarith
    then have "real_of_int N \<le> real_of_int (roundHalfEven (x / ulp x))" by (simp only: of_int_le_iff)
    then have "real_of_int N * ulp x \<le> real_of_int (roundHalfEven (x / ulp x)) * ulp x"
      using ulp_pos [of x] by (simp only: mult_le_cancel_right_pos)
    then show ?thesis unfolding N r .
  next
    case False
    then have e: "- 1022 \<le> binaryExponent x"
      and y: "real_of_int m * 2 powi k < 2 powi binaryExponent x" by simp_all
    have u: "ulp x = 2 powi (binaryExponent x - 52)" using ulp_of_pos [OF assms(1)] e by simp
    have "(2::real) powi binaryExponent x = 2 powi (binaryExponent x - 52) * 2 ^ 52"
      by (rule pow2_shift_eq) simp
    then have p: "2 powi (binaryExponent x - 52) * 2 ^ 52 = (2::real) powi binaryExponent x"
      by simp
    have "real_of_int (2 ^ 52) \<le> x / ulp x" using scaled_lower [OF assms(1) e] by simp
    then have "2 ^ 52 \<le> \<lfloor>x / ulp x\<rfloor>" by (simp only: le_floor_iff)
    then have "2 ^ 52 \<le> roundHalfEven (x / ulp x)" using roundHalfEven_bounds [of "x / ulp x"] by linarith
    then have "real_of_int (2 ^ 52) \<le> real_of_int (roundHalfEven (x / ulp x))" by (simp only: of_int_le_iff)
    then have "real_of_int (2 ^ 52) * ulp x \<le> real_of_int (roundHalfEven (x / ulp x)) * ulp x"
      using ulp_pos [of x] by (simp only: mult_le_cancel_right_pos)
    moreover have "real_of_int (2 ^ 52) * ulp x = 2 powi binaryExponent x"
      unfolding u using p by (simp add: mult.commute)
    ultimately show ?thesis unfolding r using y by linarith
  qed
qed

lemma roundDouble_pos_nonneg:
  assumes "0 < x"
  shows "0 \<le> roundDouble x"
proof -
  have "0 \<le> x / ulp x" using assms ulp_pos [of x] by simp
  then have "0 \<le> \<lfloor>x / ulp x\<rfloor>" by simp
  then have "0 \<le> roundHalfEven (x / ulp x)" using roundHalfEven_bounds [of "x / ulp x"] by linarith
  then show ?thesis using assms ulp_pos [of x] by (simp add: roundDouble_def)
qed

lemma roundDouble_le:
  assumes "\<bar>m\<bar> < 2 ^ 53" and "- 1074 \<le> k" and "x \<le> real_of_int m * 2 powi k"
  shows "roundDouble x \<le> real_of_int m * 2 powi k"
proof -
  consider "0 < x" | "x = 0" | "x < 0" by linarith
  then show ?thesis
  proof cases
    case 1
    show ?thesis by (rule roundDouble_pos_le [OF 1 _ assms(2,3)]) (use assms(1) in linarith)
  next
    case 2
    then show ?thesis using assms(3) by simp
  next
    case 3
    then have nx: "0 < - x" by simp
    show ?thesis
    proof (cases "0 \<le> real_of_int m * 2 powi k")
      case True
      then show ?thesis using roundDouble_pos_nonneg [OF nx] by (simp add: roundDouble_minus)
    next
      case False
      then have "0 < real_of_int (- m) * 2 powi k" by simp
      then have m: "0 < - m" by (rule pow2_factor_pos)
      have "real_of_int (- m) * 2 powi k \<le> - x" using assms(3) by simp
      from roundDouble_pos_ge [OF nx m _ assms(2) this] assms(1)
      have "real_of_int (- m) * 2 powi k \<le> roundDouble (- x)" by linarith
      then show ?thesis by (simp add: roundDouble_minus)
    qed
  qed
qed

lemma roundDouble_ge:
  assumes "\<bar>m\<bar> < 2 ^ 53" and "- 1074 \<le> k" and "real_of_int m * 2 powi k \<le> x"
  shows "real_of_int m * 2 powi k \<le> roundDouble x"
proof -
  have "roundDouble (- x) \<le> real_of_int (- m) * 2 powi k"
    by (rule roundDouble_le) (use assms in simp_all)
  then show ?thesis by (simp add: roundDouble_minus)
qed

lemma roundDouble_double:
  assumes "\<bar>m\<bar> < 2 ^ 53" and "- 1074 \<le> k"
  shows "roundDouble (real_of_int m * 2 powi k) = real_of_int m * 2 powi k"
  using roundDouble_le [OF assms order_refl] roundDouble_ge [OF assms order_refl] by simp

lemma roundDouble_of_int:
  assumes "\<bar>m\<bar> < 2 ^ 53"
  shows "roundDouble (real_of_int m) = real_of_int m"
  using roundDouble_double [OF assms, of 0] by simp

lemma roundDouble_near:
  assumes "2 powi e \<le> x" and "x < 2 powi (e + 1)" and "- 1022 \<le> e"
    and "\<bar>x - real_of_int n * 2 powi (e - 52)\<bar> < 2 powi (e - 52) / 2"
  shows "roundDouble x = real_of_int n * 2 powi (e - 52)"
proof -
  have "0 < (2::real) powi e" by simp
  then have x: "0 < x" using assms(1) by linarith
  have e: "binaryExponent x = e" using assms(1,2) by (rule binaryExponent_unique)
  have u: "ulp x = 2 powi (e - 52)" using ulp_of_pos [OF x] assms(3) unfolding e by simp
  have "\<bar>x / ulp x - real_of_int n\<bar> = \<bar>x - real_of_int n * ulp x\<bar> / ulp x"
    using ulp_pos [of x] by (simp add: field_simps)
  also have "\<dots> < 1 / 2" using assms(4) ulp_pos [of x] unfolding u [symmetric]
    by (simp add: pos_divide_less_eq)
  finally have "roundHalfEven (x / ulp x) = n" by (rule roundHalfEven_near)
  then show ?thesis using x unfolding u [symmetric] by (simp add: roundDouble_def)
qed


lemma roundDouble_exponent:
  assumes "2 powi e \<le> x" and "x < 2 powi (e + 1)" and "- 1022 \<le> e"
  shows "roundDouble x = real_of_int (roundHalfEven (x / 2 powi (e - 52))) * 2 powi (e - 52)"
proof -
  have "0 < (2::real) powi e" by simp
  then have x: "0 < x" using assms(1) by linarith
  have e: "binaryExponent x = e" using assms(1,2) by (rule binaryExponent_unique)
  have u: "ulp x = 2 powi (e - 52)" using ulp_of_pos [OF x] assms(3) unfolding e by simp
  show ?thesis using x unfolding u [symmetric] by (simp add: roundDouble_def)
qed

lemma roundDouble_numeral:
  "(numeral n :: int) < 2 ^ 53 \<Longrightarrow> roundDouble (numeral n) = numeral n"
  using roundDouble_of_int [of "numeral n"] by simp

lemma pow2_neg: "p \<le> q \<Longrightarrow> (2::real) powi (int p - int q) = 1 / 2 ^ (q - p)"
proof -
  assume "p \<le> q"
  then have "int p - int q = - int (q - p)" by simp
  then show ?thesis by (simp only: power_int_minus_divide power_int_of_nat)
qed

section \<open>The random source and the keyframes\<close>

lemma random_calls: "snd (random b lo hi k) = Suc k"
  by (simp add: random_def Let_def)

lemma scaled_draw_le:
  assumes "0 \<le> r" and "r \<le> 1 - 1 / 2 ^ 53" and "2 ^ p < n" and "n < 2 ^ Suc p" and "p < 52"
  shows "roundDouble (r * real_of_int n) \<le> real_of_int n - 1 / 2 ^ (52 - p)"
proof -
  define u :: real where "u = 1 / 2 ^ (52 - p)"
  define m where "m = n * 2 ^ (52 - p) - 1"
  define x where "x = r * real_of_int n"
  have pu: "(2::real) powi (int p - 52) = u"
    unfolding u_def using pow2_neg [of p 52] assms(5) by simp
  have "(2::real) ^ (52 - p) * 2 ^ p = 2 ^ 52"
    using assms(5) by (simp add: power_add [symmetric])
  then have up: "2 ^ p = u * 2 ^ 52" unfolding u_def by (simp add: field_simps)
  have u0: "0 < u" unfolding u_def by simp
  have "(0::int) < 2 ^ p" by simp
  then have n0: "0 < n" using assms(3) by linarith
  have rn: "real_of_int (2 ^ p) < real_of_int n" using assms(3) by (simp only: of_int_less_iff)
  then have np: "u * 2 ^ 52 < real_of_int n" using up by simp
  have "real_of_int n < real_of_int (2 ^ Suc p)" using assms(4) by (simp only: of_int_less_iff)
  then have nq: "real_of_int n < u * 2 ^ 53" using up by simp
  have yu: "real_of_int m * u = real_of_int n - u"
    unfolding m_def u_def by (simp add: diff_divide_distrib)
  have y: "real_of_int m * 2 powi (int p - 52) = real_of_int n - u"
    unfolding pu by (rule yu)
  have "n * 2 ^ (52 - p) < 2 ^ Suc p * 2 ^ (52 - p)" using assms(4) by simp
  also have "\<dots> = (2::int) ^ 53" using assms(5) by (simp add: power_add [symmetric])
  finally have "m < 2 ^ 53" unfolding m_def by simp
  moreover have "0 \<le> m"
  proof -
    have "1 * 1 \<le> n * 2 ^ (52 - p)" using n0 by (intro mult_mono) simp_all
    then show ?thesis unfolding m_def by simp
  qed
  ultimately have m: "\<bar>m\<bar> < 2 ^ 53" by simp
  have k: "- 1074 \<le> int p - 52" by simp
  have xn: "x \<le> real_of_int n - real_of_int n / 2 ^ 53"
  proof -
    have "r * real_of_int n \<le> (1 - 1 / 2 ^ 53) * real_of_int n"
      using assms(2) n0 by (intro mult_right_mono) simp_all
    then show ?thesis unfolding x_def by (simp add: algebra_simps)
  qed
  show ?thesis
  proof (cases "x \<le> real_of_int n - u")
    case True
    then have "x \<le> real_of_int m * 2 powi (int p - 52)" unfolding y .
    from roundDouble_le [OF m k this] show ?thesis unfolding y x_def u_def .
  next
    case False
    then have gt: "real_of_int n - u < x" by simp
    have "u \<le> 1" unfolding u_def by simp
    have "real_of_int (2 ^ p + 1) \<le> real_of_int n" using assms(3) by (simp only: of_int_le_iff)
    then have "2 ^ p \<le> real_of_int n - u" using \<open>u \<le> 1\<close> by simp
    then have lo: "2 powi int p \<le> x" using gt by simp
    have "0 < real_of_int n / 2 ^ 53" using n0 by simp
    then have "x < real_of_int n" using xn by linarith
    then have "x < 2 ^ Suc p" using \<open>real_of_int n < real_of_int (2 ^ Suc p)\<close> by simp
    then have hi: "x < 2 powi (int p + 1)" by (simp add: power_int_add)
    have "x - (real_of_int n - u) \<le> u - real_of_int n / 2 ^ 53" using xn by simp
    also have "\<dots> < u - (u * 2 ^ 52) / 2 ^ 53" using np by (simp add: divide_strict_right_mono)
    also have "\<dots> = u / 2" by simp
    finally have "\<bar>x - (real_of_int n - u)\<bar> < u / 2" using gt by simp
    then have "\<bar>x - real_of_int m * 2 powi (int p - 52)\<bar> < 2 powi (int p - 52) / 2"
      unfolding pu yu .
    from roundDouble_near [OF lo hi _ this] have "roundDouble x = real_of_int n - u" unfolding y by simp
    then show ?thesis unfolding x_def u_def by simp
  qed
qed


lemma random_in_range:
  assumes "0 \<le> mathRandom b k" and "mathRandom b k \<le> 1 - 1 / 2 ^ 53"
    and "2 ^ p < hi - lo + 1" and "hi - lo + 1 < 2 ^ Suc p" and "p < 52" and "\<bar>hi + 1\<bar> < 2 ^ Suc p"
  shows "lo \<le> fst (random b (real_of_int lo) (real_of_int hi) k)
       \<and> fst (random b (real_of_int lo) (real_of_int hi) k) \<le> hi"
proof -
  define n where "n = hi - lo + 1"
  define u :: real where "u = 1 / 2 ^ (52 - p)"
  define s where "s = roundDouble (mathRandom b k * real_of_int n)"
  define t where "t = roundDouble (s + real_of_int lo)"
  have p53: "(2::int) ^ Suc p \<le> 2 ^ 53" using assms(5) by (intro power_increasing) simp_all
  have "(0::int) < 2 ^ p" by simp
  then have n0: "0 < n" using assms(3) unfolding n_def by linarith
  have nb: "n < 2 ^ 53" using assms(4) p53 unfolding n_def by linarith
  have "roundDouble (real_of_int (hi - lo)) = real_of_int (hi - lo)"
    by (rule roundDouble_of_int) (use n0 nb in \<open>simp add: n_def\<close>)
  then have c1: "roundDouble (real_of_int hi - real_of_int lo) = real_of_int (hi - lo)" by simp
  have "roundDouble (real_of_int n) = real_of_int n"
    by (rule roundDouble_of_int) (use n0 nb in simp)
  then have c2: "roundDouble (real_of_int hi - real_of_int lo + 1) = real_of_int n" by (simp add: n_def)
  have r: "fst (random b (real_of_int lo) (real_of_int hi) k) = \<lfloor>t\<rfloor>"
    unfolding t_def s_def by (simp add: random_def Let_def c1 c2)
  have pu: "(2::real) powi (int p - 52) = u"
    unfolding u_def using pow2_neg [of p 52] assms(5) by simp
  have u0: "0 < u" unfolding u_def by simp
  have k: "- 1074 \<le> int p - 52" by simp
  have "real_of_int 0 * 2 powi 0 \<le> mathRandom b k * real_of_int n" using assms(1) n0 by simp
  from roundDouble_ge [OF _ _ this] have s0: "0 \<le> s" unfolding s_def by simp
  have s1: "s \<le> real_of_int n - u"
    unfolding s_def u_def using assms(1,2) assms(3,4) [folded n_def] assms(5) by (rule scaled_draw_le)
  have lob: "\<bar>lo\<bar> < 2 ^ 53"
  proof -
    have "(2::int) ^ Suc p + 2 ^ Suc p \<le> 2 ^ 53"
    proof -
      have "(2::int) ^ Suc (Suc p) \<le> 2 ^ 53" using assms(5) by (intro power_increasing) simp_all
      then show ?thesis by simp
    qed
    moreover have "lo = hi + 1 - n" unfolding n_def by simp
    ultimately show ?thesis using assms(4,6) n0 unfolding n_def by linarith
  qed
  have "real_of_int lo * 2 powi 0 \<le> s + real_of_int lo" using s0 by simp
  from roundDouble_ge [OF lob _ this] have t0: "real_of_int lo \<le> t" unfolding t_def by simp
  define m where "m = (hi + 1) * 2 ^ (52 - p) - 1"
  have mu: "real_of_int m * u = real_of_int (hi + 1) - u"
    unfolding m_def u_def by (simp add: diff_divide_distrib)
  have mb: "\<bar>m\<bar> < 2 ^ 53"
  proof -
    have e: "(2::int) ^ Suc p * 2 ^ (52 - p) = 2 ^ 53" using assms(5) by (simp add: power_add [symmetric])
    have two: "(2::int) \<le> 2 ^ (52 - p)" using assms(5) power_increasing [of 1 "52 - p" "2::int"] by simp
    have "hi + 1 \<le> 2 ^ Suc p - 1" using assms(6) by linarith
    then have "(hi + 1) * 2 ^ (52 - p) \<le> (2 ^ Suc p - 1) * 2 ^ (52 - p)" by (intro mult_right_mono) simp_all
    also have "\<dots> = 2 ^ 53 - 2 ^ (52 - p)" using e by (simp add: algebra_simps)
    finally have up: "m < 2 ^ 53" unfolding m_def using two by linarith
    have "- (2 ^ Suc p - 1) \<le> hi + 1" using assms(6) by linarith
    then have "- (2 ^ Suc p - 1) * 2 ^ (52 - p) \<le> (hi + 1) * 2 ^ (52 - p)" by (intro mult_right_mono) simp_all
    moreover have "- (2 ^ Suc p - 1) * 2 ^ (52 - p) = - ((2::int) ^ 53) + 2 ^ (52 - p)" using e by (simp add: algebra_simps)
    ultimately have "- (2 ^ 53) < m" unfolding m_def using two by linarith
    with up show ?thesis by linarith
  qed
  have "s + real_of_int lo \<le> real_of_int (hi + 1) - u" using s1 unfolding n_def by simp
  then have "s + real_of_int lo \<le> real_of_int m * 2 powi (int p - 52)" unfolding pu mu .
  from roundDouble_le [OF mb k this] have "t \<le> real_of_int (hi + 1) - u" unfolding t_def pu mu .
  then have t1: "t < real_of_int (hi + 1)" using u0 by linarith
  from t0 have "lo \<le> \<lfloor>t\<rfloor>" by (simp only: le_floor_iff)
  moreover from t1 have "\<lfloor>t\<rfloor> < hi + 1" by (simp only: floor_less_iff)
  ultimately show ?thesis unfolding r by simp
qed

lemma createCSSKeyframe_step:
  assumes "\<forall>k. 0 \<le> mathRandom b k \<and> mathRandom b k \<le> 1 - 1 / 2 ^ 53"
  shows "\<exists>rule. createCSSKeyframe b i (sheet, calls) = (sheet @ [rule], calls + 4) \<and> keyframeInRange i rule"
proof -
  have r1: "- 500 \<le> fst (random b (- 500) 1000 k) \<and> fst (random b (- 500) 1000 k) \<le> 1000" for k
    using random_in_range [of b k 10 1000 "- 500"] assms by simp
  have r2: "- 5000 \<le> fst (random b (- 5000) 10000 k) \<and> fst (random b (- 5000) 10000 k) \<le> 10000" for k
    using random_in_range [of b k 13 10000 "- 5000"] assms by simp
  show ?thesis
    using r1 [of calls] r1 [of "Suc calls"] r1 [of "Suc (Suc calls)"] r2 [of "Suc (Suc (Suc calls))"]
    by (simp add: createCSSKeyframe_def keyframeInRange_def split_beta Let_def random_calls)
qed

lemma createCSSKeyframe_fold:
  assumes "\<forall>k. 0 \<le> mathRandom b k \<and> mathRandom b k \<le> 1 - 1 / 2 ^ 53"
  shows "\<exists>ks. fold (createCSSKeyframe b) [0 ..< n] (sheet, calls) = (sheet @ ks, calls + 4 * n)
            \<and> length ks = n \<and> (\<forall>i < n. keyframeInRange i (ks ! i))"
proof (induction n)
  case 0
  then show ?case by simp
next
  case (Suc n)
  then obtain ks where ks: "fold (createCSSKeyframe b) [0 ..< n] (sheet, calls) = (sheet @ ks, calls + 4 * n)"
      "length ks = n" "\<forall>i < n. keyframeInRange i (ks ! i)"
    by blast
  from createCSSKeyframe_step [OF assms, of n "sheet @ ks" "calls + 4 * n"]
  obtain rule where rule: "createCSSKeyframe b n (sheet @ ks, calls + 4 * n) = ((sheet @ ks) @ [rule], calls + 4 * n + 4)"
      "keyframeInRange n rule"
    by blast
  have "fold (createCSSKeyframe b) [0 ..< Suc n] (sheet, calls) = (sheet @ (ks @ [rule]), calls + 4 * Suc n)"
    using ks(1) rule(1) by simp
  moreover have "length (ks @ [rule]) = Suc n" using ks(2) by simp
  moreover have "\<forall>i < Suc n. keyframeInRange i ((ks @ [rule]) ! i)"
  proof (intro allI impI)
    fix i assume "i < Suc n"
    then consider "i < n" | "i = n" by arith
    then show "keyframeInRange i ((ks @ [rule]) ! i)"
    proof cases
      case 1
      then show ?thesis using ks(2,3) by (simp add: nth_append)
    next
      case 2
      then show ?thesis using ks(2) rule(2) by (simp add: nth_append)
    qed
  qed
  ultimately show ?case by blast
qed

lemma random_top_draw: "fst (random topDrawBrowser 1000 1001 0) = 1002"
proof -
  have m: "mathRandom topDrawBrowser 0 = 1 - 1 / 2 ^ 52"
    by (simp add: topDrawBrowser_def)
  have c1: "roundDouble (1001 - 1000) = 1" using roundDouble_of_int [of 1] by simp
  have c2: "roundDouble (1 + 1) = 2" using roundDouble_of_int [of 2] by simp
  have c3: "roundDouble ((1 - 1 / 2 ^ 52) * 2) = 2 - 1 / 2 ^ 51"
    using roundDouble_exponent [of 0 "(1 - 1 / 2 ^ 52) * 2"] by (simp add: roundHalfEven_def Let_def)
  have c4: "roundDouble (2 - 1 / 2 ^ 51 + 1000) = 1002"
    using roundDouble_exponent [of 9 "2 - 1 / 2 ^ 51 + 1000"] by (simp add: roundHalfEven_def Let_def)
  have f: "real_of_int \<lfloor>1001::real\<rfloor> = 1001" "real_of_int \<lceil>1000::real\<rceil> = 1000" by simp_all
  show ?thesis
    unfolding random_def Let_def m f c1 c2 c3 c4 by simp
qed

text \<open>
  C8 (the code departs from the claim). \<^verbatim>\<open>random\<close> is documented as returning a number
  between \<open>min\<close> and \<open>max\<close>, both inclusive. With the draw \<open>1 - 2\<^sup>-\<^sup>5\<^sup>2\<close>, which lies in
  [0, 1), \<^verbatim>\<open>random(1000, 1001)\<close> returns 1002: the product \<open>2 - 2\<^sup>-\<^sup>5\<^sup>1\<close> is exact, the sum
  \<open>1002 - 2\<^sup>-\<^sup>5\<^sup>1\<close> is not a double and rounds to 1002, so \<^verbatim>\<open>Math.floor\<close> finds 1002.
\<close>

theorem random_returns_above_max:
  "0 \<le> mathRandom topDrawBrowser 0 \<and> mathRandom topDrawBrowser 0 < 1
   \<and> fst (random topDrawBrowser 1000 1001 0) = 1002"
proof -
  have "mathRandom topDrawBrowser 0 = 1 - 1 / 2 ^ 52" by (simp add: topDrawBrowser_def)
  then have "0 \<le> mathRandom topDrawBrowser 0 \<and> mathRandom topDrawBrowser 0 < 1" by simp
  then show ?thesis using random_top_draw by simp
qed

section \<open>The partition of the text box\<close>

lemma nat_le_pow26: "g \<le> 2 ^ 26 \<Longrightarrow> \<bar>int g\<bar> < 2 ^ 53"
proof -
  assume "g \<le> 2 ^ 26"
  then have "int g \<le> int (2 ^ 26)" by (simp only: of_nat_le_iff)
  then show ?thesis by simp
qed

lemma partGrid_square:
  assumes "g \<le> 2 ^ 26"
  shows "partGrid (int (g * g)) = \<lparr>vec_x = real g, vec_y = real g\<rparr>"
proof -
  have s: "sqrt (real_of_int (int (g * g))) = real g"
    by (simp add: real_sqrt_mult)
  have "roundDouble (real_of_int (int g)) = real_of_int (int g)"
    using nat_le_pow26 [OF assms] by (rule roundDouble_of_int)
  then have "roundDouble (real g) = real g" by simp
  then show ?thesis unfolding partGrid_def s by simp
qed

lemma jsRemainder_nat:
  assumes "0 < g"
  shows "jsRemainder (real i) (real g) = real (i mod g)"
proof -
  have nonneg: "0 \<le> real i / real g" by simp
  have fl: "\<lfloor>real i / real g\<rfloor> = int (i div g)"
    by (simp add: floor_divide_of_nat_eq)
  have "real (g * (i div g) + i mod g) = real i" by simp
  then have "real g * real (i div g) + real (i mod g) = real i"
    by (simp only: of_nat_add of_nat_mult)
  then have d: "real i - real g * real (i div g) = real (i mod g)"
    by linarith
  have "jsRemainder (real i) (real g) = real i - real g * real_of_int \<lfloor>real i / real g\<rfloor>"
    unfolding jsRemainder_def using nonneg by (simp only: if_True)
  also have "\<dots> = real i - real g * real (i div g)"
    unfolding fl by simp
  finally show ?thesis using d by simp
qed

lemma floor_roundDouble_div:
  assumes "0 < g" and "g \<le> 2 ^ 26" and "i < g * g"
  shows "\<lfloor>roundDouble (real i / real g)\<rfloor> = int (i div g)"
proof -
  define k where "k = i div g"
  define x where "x = real i / real g"
  have kg: "k < g" unfolding k_def using assms(1,3) by (simp add: less_mult_imp_div_less mult.commute)
  have g0: "0 < real g" using assms(1) by simp
  have "\<lfloor>x\<rfloor> = int k" unfolding x_def k_def by (simp add: floor_divide_of_nat_eq)
  then have lo: "real k \<le> x" by (metis of_int_floor_le of_int_of_nat_eq)
  have "i mod g < g" using assms(1) by simp
  then have "i mod g + 1 \<le> g" by simp
  moreover have "i = g * k + i mod g" unfolding k_def by simp
  ultimately have "i + 1 \<le> g * k + g" by linarith
  then have "real (i + 1) \<le> real (g * k + g)" by (simp only: of_nat_le_iff)
  then have "real i + 1 \<le> real g * (real k + 1)" by (simp add: algebra_simps)
  then have "(real i + 1) / real g \<le> real k + 1" using g0 by (simp add: pos_divide_le_eq mult.commute)
  then have hi1: "x \<le> real k + 1 - 1 / real g" unfolding x_def by (simp add: add_divide_distrib)
  have "real g \<le> real (2 ^ 26)" using assms(2) by (simp only: of_nat_le_iff)
  then have "1 / real (2 ^ 26) \<le> 1 / real g" using g0 by (intro divide_left_mono) simp_all
  then have hi: "x \<le> real k + 1 - 1 / 2 ^ 26" using hi1 by simp
  have kb: "\<bar>int k\<bar> < 2 ^ 53" using nat_le_pow26 [of k] kg assms(2) by simp
  have "real_of_int (int k) * 2 powi 0 \<le> x" using lo by simp
  from roundDouble_ge [OF kb _ this] have r0: "real k \<le> roundDouble x" by simp
  define m where "m = (int k + 1) * 2 ^ 26 - 1"
  have my: "real_of_int m * 2 powi (- 26) = real k + 1 - 1 / 2 ^ 26"
    unfolding m_def by (simp add: power_int_minus_divide diff_divide_distrib)
  have "int k + 1 \<le> int g" using kg by simp
  also have "\<dots> \<le> 2 ^ 26" using assms(2) by (metis of_nat_le_iff of_nat_numeral of_nat_power)
  finally have "(int k + 1) * 2 ^ 26 \<le> 2 ^ 26 * 2 ^ 26" by (intro mult_right_mono) simp_all
  then have "m < 2 ^ 53" unfolding m_def by simp
  moreover have "0 \<le> m" unfolding m_def by simp
  ultimately have mb: "\<bar>m\<bar> < 2 ^ 53" by simp
  have "x \<le> real_of_int m * 2 powi (- 26)" unfolding my by (rule hi)
  from roundDouble_le [OF mb _ this] have "roundDouble x \<le> real k + 1 - 1 / 2 ^ 26" unfolding my by simp
  then have r1: "roundDouble x < real_of_int (int k) + 1" by simp
  from r0 have "real_of_int (int k) \<le> roundDouble x" by simp
  with r1 have "\<lfloor>roundDouble x\<rfloor> = int k" by (simp only: floor_eq_iff)
  then show ?thesis unfolding x_def k_def .
qed

lemma cssTextPartRule_square:
  assumes "0 < g" and "g \<le> 2 ^ 26" and "i < g * g"
  shows "cssTextPartRule a (partGrid (int (g * g))) W H i = specPartRule a g W H i"
  unfolding cssTextPartRule_def cssTextPart_def partGrid_square [OF assms(2)] specPartRule_def Let_def
  by (simp add: jsRemainder_nat [OF assms(1)] floor_roundDouble_div [OF assms])

lemma in_strip_iff:
  assumes "0 < (c::real)"
  shows "real k * c \<le> x \<and> x < real k * c + c \<longleftrightarrow> \<lfloor>x / c\<rfloor> = int k"
proof -
  have "\<lfloor>x / c\<rfloor> = int k \<longleftrightarrow> real_of_int (int k) \<le> x / c \<and> x / c < real_of_int (int k) + 1"
    by (rule floor_eq_iff)
  also have "\<dots> \<longleftrightarrow> real k * c \<le> x \<and> x < (real k + 1) * c"
    using assms by (simp add: pos_le_divide_eq pos_divide_less_eq)
  also have "\<dots> \<longleftrightarrow> real k * c \<le> x \<and> x < real k * c + c"
    by (simp add: algebra_simps)
  finally show ?thesis by simp
qed

lemma strip_index_bound:
  assumes "0 < g" and "0 < (L::real)" and "0 \<le> x" and "x < L"
  shows "nat \<lfloor>x / (L / real g)\<rfloor> < g \<and> int (nat \<lfloor>x / (L / real g)\<rfloor>) = \<lfloor>x / (L / real g)\<rfloor>"
proof -
  define c where "c = L / real g"
  define z where "z = \<lfloor>x / c\<rfloor>"
  have c: "0 < c" unfolding c_def using assms by simp
  have "0 \<le> x / c" using assms c by simp
  then have nonneg: "0 \<le> z" unfolding z_def by simp
  have "real g * c = L" unfolding c_def using assms(1) by simp
  then have "x < real g * c" using assms(4) by simp
  then have "x / c < real g" using c by (simp add: pos_divide_less_eq)
  then have "z < int g" unfolding z_def by (simp add: floor_less_iff)
  with nonneg have "nat z < g \<and> int (nat z) = z" by simp
  then show ?thesis unfolding z_def c_def .
qed

lemma grid_index_bound:
  assumes "row < g" and "col < (g::nat)"
  shows "row * g + col < g * g"
proof -
  have "row * g + col < row * g + g" using assms(2) by simp
  also have "\<dots> = Suc row * g" by simp
  also have "\<dots> \<le> g * g" using assms(1) by (intro mult_le_mono1) simp
  finally show ?thesis .
qed

lemma exactCells_size:
  assumes "0 < g" and "exactCells g L"
  shows "roundDouble (L / real g) = L / real g"
proof -
  have "real g * roundDouble (L / real g) = L" using assms(2) by (simp add: exactCells_def Let_def)
  then show ?thesis using assms(1) by (simp add: field_simps)
qed

lemma exactCells_edges:
  assumes "0 < g" and "exactCells g L" and "k < g"
  shows "roundDouble (real k * (L / real g)) = real k * (L / real g)"
    and "roundDouble (real k * (L / real g) + L / real g) = real k * (L / real g) + L / real g"
proof -
  have "list_all (\<lambda>k. roundDouble (real k * (L / real g)) = real k * (L / real g)
                      \<and> roundDouble (real k * (L / real g) + L / real g) = real k * (L / real g) + L / real g) [0 ..< g]"
    using assms(2) unfolding exactCells_def Let_def exactCells_size [OF assms(1,2)] by (rule conjunct2)
  then have "roundDouble (real k * (L / real g)) = real k * (L / real g)
           \<and> roundDouble (real k * (L / real g) + L / real g) = real k * (L / real g) + L / real g"
    using assms(3) by (simp add: list_all_iff)
  then show "roundDouble (real k * (L / real g)) = real k * (L / real g)"
    and "roundDouble (real k * (L / real g) + L / real g) = real k * (L / real g) + L / real g"
    by simp_all
qed

lemma specPartRule_exact:
  assumes "0 < g" and "exactCells g W" and "exactCells g H" and "i < g * g"
  shows "specPartRule a g W H i =
           PartRule (i + 1)
             \<lparr>vec_x = real (i mod g) * (W / real g), vec_y = real (i div g) * (H / real g)\<rparr>
             \<lparr>vec_x = real (i mod g) * (W / real g) + W / real g, vec_y = real (i div g) * (H / real g)\<rparr>
             \<lparr>vec_x = real (i mod g) * (W / real g) + W / real g,
              vec_y = real (i div g) * (H / real g) + H / real g\<rparr>
             \<lparr>vec_x = real (i mod g) * (W / real g), vec_y = real (i div g) * (H / real g) + H / real g\<rparr>
             (i + 1) (duration_inS a) (startDelay_inS a)"
proof -
  have col: "i mod g < g" using assms(1) by simp
  have row: "i div g < g" using assms(1,4) by (simp add: less_mult_imp_div_less mult.commute)
  show ?thesis
    unfolding specPartRule_def Let_def
      exactCells_size [OF assms(1,2)] exactCells_size [OF assms(1,3)]
      exactCells_edges [OF assms(1,2) col] exactCells_edges [OF assms(1,3) row] ..
qed

lemma pointInRule_exact:
  assumes "0 < g" and "exactCells g W" and "exactCells g H" and "i < g * g" and "0 < W" and "0 < H"
  shows "pointInRule (specPartRule a g W H i) px py \<longleftrightarrow>
           \<lfloor>px / (W / real g)\<rfloor> = int (i mod g) \<and> \<lfloor>py / (H / real g)\<rfloor> = int (i div g)"
proof -
  define cw where "cw = W / real g"
  define ch where "ch = H / real g"
  have cw: "0 < cw" and ch: "0 < ch" unfolding cw_def ch_def using assms by simp_all
  have "pointInRule (specPartRule a g W H i) px py \<longleftrightarrow>
          (real (i mod g) * cw \<le> px \<and> px < real (i mod g) * cw + cw)
        \<and> (real (i div g) * ch \<le> py \<and> py < real (i div g) * ch + ch)"
    unfolding specPartRule_exact [OF assms(1,2,3,4)] pointInRule_def cw_def ch_def by simp
  also have "\<dots> \<longleftrightarrow> \<lfloor>px / cw\<rfloor> = int (i mod g) \<and> \<lfloor>py / ch\<rfloor> = int (i div g)"
    unfolding in_strip_iff [OF cw] in_strip_iff [OF ch] ..
  finally show ?thesis unfolding cw_def ch_def .
qed

lemma part_tiling:
  assumes "0 < g" and "exactCells g W" and "exactCells g H" and "0 < W" and "0 < H"
    and "0 \<le> px" and "px < W" and "0 \<le> py" and "py < H"
  shows "\<exists>!i. i < g * g \<and> pointInRule (specPartRule a g W H i) px py"
proof -
  define col where "col = nat \<lfloor>px / (W / real g)\<rfloor>"
  define row where "row = nat \<lfloor>py / (H / real g)\<rfloor>"
  have col: "col < g" "\<lfloor>px / (W / real g)\<rfloor> = int col"
    unfolding col_def using strip_index_bound [OF assms(1,4,6,7)] by simp_all
  have row: "row < g" "\<lfloor>py / (H / real g)\<rfloor> = int row"
    unfolding row_def using strip_index_bound [OF assms(1,5,8,9)] by simp_all
  define i where "i = row * g + col"
  have lt: "i < g * g" unfolding i_def using row(1) col(1) by (rule grid_index_bound)
  have md: "i mod g = col" "i div g = row" unfolding i_def using col(1) by simp_all
  have here: "pointInRule (specPartRule a g W H i) px py"
    unfolding pointInRule_exact [OF assms(1,2,3) lt assms(4,5)] md col(2) row(2) by simp
  show ?thesis
  proof (rule ex1I [of _ i])
    show "i < g * g \<and> pointInRule (specPartRule a g W H i) px py"
      using lt here by simp
  next
    fix j assume j: "j < g * g \<and> pointInRule (specPartRule a g W H j) px py"
    then have jl: "j < g * g" and jp: "pointInRule (specPartRule a g W H j) px py" by simp_all
    from jp have "int col = int (j mod g) \<and> int row = int (j div g)"
      unfolding pointInRule_exact [OF assms(1,2,3) jl assms(4,5)] col(2) row(2) by simp
    then have "j mod g = col" "j div g = row" by simp_all
    then have "j = row * g + col" using div_mult_mod_eq [of j g] by simp
    then show "j = i" unfolding i_def .
  qed
qed

section \<open>init, play and the settle callback\<close>

lemma createTextDiv_part: "createTextDiv txt [''text'', ''hide''] = textPartDiv txt"
  by (simp add: createTextDiv_def createDiv_def classList_add_def textPartDiv_def)

lemma createTextDiv_ghost: "(createTextDiv txt [])\<lparr>styleOpacity := ''1''\<rparr> = ghostDiv txt"
  by (simp add: createTextDiv_def createDiv_def ghostDiv_def)

lemma fold_append_child:
  "fold (\<lambda>i c. c\<lparr>children := children c @ [p]\<rparr>) [0 ..< n] c = c\<lparr>children := children c @ replicate n p\<rparr>"
proof (induction n)
  case 0
  then show ?case by simp
next
  case (Suc n)
  then show ?case by (simp add: replicate_append_same)
qed

lemma createHTML_eq:
  "createHTML a =
     a\<lparr>htmlTextContainer := Some
          \<lparr>containerClassList = [''textAssembleAnimationWrapper''],
           children = replicate (nat (textCount a)) (textPartDiv (anim_text a)) @ [ghostDiv (anim_text a)],
           styleFontSize = [], styleDisplay = [], placement = Detached\<rparr>,
       htmlTextDiv := Some (nat (textCount a))\<rparr>"
  by (simp add: createHTML_def Let_def fold_append_child createTextDiv_part createTextDiv_ghost
        createContainerDiv_def classList_add_def)

lemma getHTMLElementFont_attached:
  "children c \<noteq> [] \<Longrightarrow> placement c \<noteq> Detached \<Longrightarrow>
   getHTMLElementFont b (Some c) = elementFont b (styleFontSize c)"
  by (simp add: getHTMLElementFont_def elementFont_def Let_def)

lemma split_js_two:
  "sep \<in> set s \<Longrightarrow> \<exists>a b rest. split_js sep s = a # b # rest"
proof (induction s)
  case Nil
  then show ?case by simp
next
  case (Cons c cs)
  obtain u us where us: "split_js sep cs = u # us"
    using split_js_nonempty [of sep cs] by (cases "split_js sep cs") auto
  show ?case
  proof (cases "c = sep")
    case True
    then show ?thesis using us by simp
  next
    case False
    with Cons.prems have "sep \<in> set cs" by simp
    from Cons.IH [OF this] obtain a b rest where "split_js sep cs = a # b # rest" by blast
    with False show ?thesis by simp
  qed
qed

lemma getCSSFontSize_elementFont: "\<exists>sz. getCSSFontSize (elementFont b inlineSize) = Str sz"
proof -
  have "CHR '' '' \<in> set (elementFont b inlineSize)" by (simp add: elementFont_def)
  from split_js_two [OF this] show ?thesis by (auto simp: getCSSFontSize_def)
qed

lemma resize_detached:
  assumes "htmlTextContainer a = Some c" and "placement c = Detached" and "children c \<noteq> []"
  shows "(resize b a w = None \<longleftrightarrow>
            clampFontSizeToScreenPadding b (anim_text a) (elementFont b (originalCSSFontSize a))
              (minScreenPadding_inPC a) (canvas w) = None)
       \<and> (\<forall>r. resize b a w = Some r \<longrightarrow>
            (\<exists>sz cv. r = Inr (a\<lparr>htmlTextContainer :=
                                   Some (c\<lparr>styleFontSize := sz, styleDisplay := ''flex'', placement := Detached\<rparr>)\<rparr>,
                              w\<lparr>canvas := cv\<rparr>)))"
proof -
  let ?c1 = "c\<lparr>styleFontSize := originalCSSFontSize a, styleDisplay := ''none'', placement := ChildOfBody\<rparr>"
  have font: "getHTMLElementFont b (Some ?c1) = elementFont b (originalCSSFontSize a)"
    using assms(3) by (simp add: getHTMLElementFont_attached)
  show ?thesis
    using assms(1,2)
    by (auto simp: resize_def Let_def dom_addHiddenElement_def dom_removeHiddenElement_def font
          split: option.splits prod.splits jsString.splits if_splits)
qed

lemma fold_append_rule:
  "fold (\<lambda>i sheet. sheet @ [f i]) xs sheet = sheet @ map f xs"
  by (induction xs arbitrary: sheet) simp_all

lemma createCSSTextParts_eq:
  assumes "htmlTextContainer a = Some c" and "children c \<noteq> []"
    and "getCSSFontSize (elementFont b (styleFontSize c)) = Str sz"
  shows "createCSSTextParts b a w =
           Inr (a\<lparr>htmlTextContainer := Some (c\<lparr>styleDisplay := ''flex'', placement := Detached\<rparr>),
                  stylesheet := stylesheet a @
                    map (cssTextPartRule a (partGrid (textCount a))
                           (measuredWidth b (anim_text a) (elementFont b (styleFontSize c)))
                           (max (fontIntrinsicHeight b (elementFont b (styleFontSize c)))
                                (real (digitsToNumber (filter isDigit sz)))))
                        [0 ..< nat (textCount a)]\<rparr>,
                w\<lparr>canvas := \<lparr>contextFont = elementFont b (styleFontSize c)\<rparr>\<rparr>)"
proof -
  let ?c1 = "c\<lparr>styleDisplay := ''none'', placement := ChildOfBody\<rparr>"
  have font: "getHTMLElementFont b (Some ?c1) = elementFont b (styleFontSize c)"
    using assms(2) by (simp add: getHTMLElementFont_attached)
  have mx: "(if x < y then y else x) = max x y" for x y :: real
    by (simp add: max_def)
  show ?thesis
    using assms(1)
    by (simp add: createCSSTextParts_def Let_def dom_addHiddenElement_def dom_removeHiddenElement_def
          font assms(3) getTextWidth_def getFontHeight_def fold_append_rule mx
          measuredWidth_def fontIntrinsicHeight_def)
qed

lemma createCSSTextParts_ok:
  assumes "htmlTextContainer a = Some c" and "children c \<noteq> []"
  shows "\<exists>sheet cv. createCSSTextParts b a w =
           Inr (a\<lparr>htmlTextContainer := Some (c\<lparr>styleDisplay := ''flex'', placement := Detached\<rparr>),
                  stylesheet := sheet\<rparr>,
                w\<lparr>canvas := cv\<rparr>)"
proof -
  obtain sz where sz: "getCSSFontSize (elementFont b (styleFontSize c)) = Str sz"
    using getCSSFontSize_elementFont by blast
  show ?thesis
    unfolding createCSSTextParts_eq [OF assms sz] by (intro exI) (rule refl)
qed

lemma createCSSKeyframes_frame:
  "\<exists>sheet calls. createCSSKeyframes b a w = (a\<lparr>stylesheet := sheet\<rparr>, w\<lparr>randomCalls := calls\<rparr>)"
proof -
  have "createCSSKeyframes b a w =
      (a\<lparr>stylesheet := fst (fold (createCSSKeyframe b) [0 ..< nat (textCount a)] (stylesheet a, randomCalls w))\<rparr>,
       w\<lparr>randomCalls := snd (fold (createCSSKeyframe b) [0 ..< nat (textCount a)] (stylesheet a, randomCalls w))\<rparr>)"
    by (simp add: createCSSKeyframes_def split_beta)
  then show ?thesis by (intro exI)
qed

lemma init_cases:
  "(init b config a w = None \<longleftrightarrow>
      clampFontSizeToScreenPadding b (cfg_text config) (elementFont b (cssFontSize config))
        (cfg_minScreenPadding_inPC config) (canvas w) = None)
   \<and> (\<forall>r. init b config a w = Some r \<longrightarrow>
        (\<exists>sz sheet cv calls.
           r = Inr ((configured config a)
                      \<lparr>htmlTextContainer := Some
                          \<lparr>containerClassList = [''textAssembleAnimationWrapper''],
                           children = initialChildren config,
                           styleFontSize = sz, styleDisplay = ''flex'', placement = Detached\<rparr>,
                       htmlTextDiv := Some (nat (textPartCount config)),
                       stylesheet := sheet\<rparr>,
                    w\<lparr>canvas := cv, randomCalls := calls, resizeListeners := Suc (resizeListeners w)\<rparr>)))"
proof -
  define c0 where "c0 = \<lparr>containerClassList = [''textAssembleAnimationWrapper''],
           children = initialChildren config,
           styleFontSize = [], styleDisplay = [], placement = Detached\<rparr>"
  define a1 where "a1 = (configured config a)\<lparr>htmlTextContainer := Some c0,
       htmlTextDiv := Some (nat (textPartCount config)),
       stylesheet := stylesheet a @ [WrapperRule (cfg_color config) (cssFontSize config), TextRule, AnimationClassRule, HideRule]\<rparr>"
  have init_eq: "init b config a w =
      (case resize b a1 w of
           None \<Rightarrow> None
         | Some (Inl e) \<Rightarrow> Some (Inl e)
         | Some (Inr (a, w)) \<Rightarrow>
             (case createCSSTextParts b a w of
                Inl e \<Rightarrow> Some (Inl e)
              | Inr (a, w) \<Rightarrow>
                  (let (a, w) = createCSSKeyframes b a w;
                       w = w\<lparr>resizeListeners := Suc (resizeListeners w)\<rparr>
                   in Some (Inr (a, w)))))"
    unfolding init_def a1_def c0_def
    by (simp add: Let_def createHTML_eq configured_def initialChildren_def)
  have a1c: "htmlTextContainer a1 = Some c0" by (simp add: a1_def)
  have c0p: "placement c0 = Detached" by (simp add: c0_def)
  have c0c: "children c0 \<noteq> []" by (simp add: c0_def initialChildren_def)
  have a1f: "anim_text a1 = cfg_text config" "originalCSSFontSize a1 = cssFontSize config"
    "minScreenPadding_inPC a1 = cfg_minScreenPadding_inPC config"
    by (simp_all add: a1_def configured_def)
  note rs = resize_detached [OF a1c c0p c0c, of b w, unfolded a1f]
  show ?thesis
  proof (intro conjI allI impI)
    show "init b config a w = None \<longleftrightarrow>
      clampFontSizeToScreenPadding b (cfg_text config) (elementFont b (cssFontSize config))
        (cfg_minScreenPadding_inPC config) (canvas w) = None"
    proof (cases "resize b a1 w")
      case None
      then show ?thesis using rs init_eq by simp
    next
      case (Some r)
      with rs obtain sz cv where r: "r = Inr (a1\<lparr>htmlTextContainer :=
                                   Some (c0\<lparr>styleFontSize := sz, styleDisplay := ''flex'', placement := Detached\<rparr>)\<rparr>,
                              w\<lparr>canvas := cv\<rparr>)"
        by blast
      let ?c2 = "c0\<lparr>styleFontSize := sz, styleDisplay := ''flex'', placement := Detached\<rparr>"
      let ?a2 = "a1\<lparr>htmlTextContainer := Some ?c2\<rparr>"
      have "\<exists>sheet cv'. createCSSTextParts b ?a2 (w\<lparr>canvas := cv\<rparr>) =
           Inr (?a2\<lparr>htmlTextContainer := Some (?c2\<lparr>styleDisplay := ''flex'', placement := Detached\<rparr>),
                  stylesheet := sheet\<rparr>,
                w\<lparr>canvas := cv\<rparr>\<lparr>canvas := cv'\<rparr>)"
        by (rule createCSSTextParts_ok) (simp_all add: c0c)
      then obtain sheet cv' where tp: "createCSSTextParts b ?a2 (w\<lparr>canvas := cv\<rparr>) =
           Inr (?a2\<lparr>htmlTextContainer := Some (?c2\<lparr>styleDisplay := ''flex'', placement := Detached\<rparr>),
                  stylesheet := sheet\<rparr>,
                w\<lparr>canvas := cv\<rparr>\<lparr>canvas := cv'\<rparr>)"
        by blast
      have "init b config a w \<noteq> None"
        unfolding init_eq Some r by (simp add: tp split_beta Let_def)
      moreover have "clampFontSizeToScreenPadding b (cfg_text config) (elementFont b (cssFontSize config))
        (cfg_minScreenPadding_inPC config) (canvas w) \<noteq> None"
        using rs Some by simp
      ultimately show ?thesis by blast
    qed
  next
    fix r assume ir: "init b config a w = Some r"
    then obtain r1 where r1: "resize b a1 w = Some r1"
      unfolding init_eq by (cases "resize b a1 w") simp_all
    with rs obtain sz cv where r: "r1 = Inr (a1\<lparr>htmlTextContainer :=
                                   Some (c0\<lparr>styleFontSize := sz, styleDisplay := ''flex'', placement := Detached\<rparr>)\<rparr>,
                              w\<lparr>canvas := cv\<rparr>)"
      by blast
    let ?c2 = "c0\<lparr>styleFontSize := sz, styleDisplay := ''flex'', placement := Detached\<rparr>"
    let ?a2 = "a1\<lparr>htmlTextContainer := Some ?c2\<rparr>"
    have "\<exists>sheet cv'. createCSSTextParts b ?a2 (w\<lparr>canvas := cv\<rparr>) =
           Inr (?a2\<lparr>htmlTextContainer := Some (?c2\<lparr>styleDisplay := ''flex'', placement := Detached\<rparr>),
                  stylesheet := sheet\<rparr>,
                w\<lparr>canvas := cv\<rparr>\<lparr>canvas := cv'\<rparr>)"
      by (rule createCSSTextParts_ok) (simp_all add: c0c)
    then obtain sheet cv' where tp: "createCSSTextParts b ?a2 (w\<lparr>canvas := cv\<rparr>) =
           Inr (?a2\<lparr>htmlTextContainer := Some (?c2\<lparr>styleDisplay := ''flex'', placement := Detached\<rparr>),
                  stylesheet := sheet\<rparr>,
                w\<lparr>canvas := cv\<rparr>\<lparr>canvas := cv'\<rparr>)"
      by blast
    let ?a3 = "?a2\<lparr>htmlTextContainer := Some (?c2\<lparr>styleDisplay := ''flex'', placement := Detached\<rparr>),
                  stylesheet := sheet\<rparr>"
    let ?w3 = "w\<lparr>canvas := cv\<rparr>\<lparr>canvas := cv'\<rparr>"
    obtain sheet' calls where kf: "createCSSKeyframes b ?a3 ?w3 = (?a3\<lparr>stylesheet := sheet'\<rparr>, ?w3\<lparr>randomCalls := calls\<rparr>)"
      using createCSSKeyframes_frame [of b ?a3 ?w3] by blast
    have "r = Inr (?a3\<lparr>stylesheet := sheet'\<rparr>,
                   ?w3\<lparr>randomCalls := calls\<rparr>\<lparr>resizeListeners := Suc (resizeListeners (?w3\<lparr>randomCalls := calls\<rparr>))\<rparr>)"
      using ir kf unfolding init_eq r1 r by (simp add: tp)
    then have "r = Inr ((configured config a)
                      \<lparr>htmlTextContainer := Some
                          \<lparr>containerClassList = [''textAssembleAnimationWrapper''],
                           children = initialChildren config,
                           styleFontSize = sz, styleDisplay = ''flex'', placement = Detached\<rparr>,
                       htmlTextDiv := Some (nat (textPartCount config)),
                       stylesheet := sheet'\<rparr>,
                    w\<lparr>canvas := cv', randomCalls := calls, resizeListeners := Suc (resizeListeners w)\<rparr>)"
      by (simp add: a1_def c0_def)
    then show "\<exists>sz sheet cv calls.
           r = Inr ((configured config a)
                      \<lparr>htmlTextContainer := Some
                          \<lparr>containerClassList = [''textAssembleAnimationWrapper''],
                           children = initialChildren config,
                           styleFontSize = sz, styleDisplay = ''flex'', placement = Detached\<rparr>,
                       htmlTextDiv := Some (nat (textPartCount config)),
                       stylesheet := sheet\<rparr>,
                    w\<lparr>canvas := cv, randomCalls := calls, resizeListeners := Suc (resizeListeners w)\<rparr>)"
      by blast
  qed
qed

lemma init_never_raises: "raisedError (init b config a w) = None"
proof (cases "init b config a w")
  case None
  then show ?thesis by (simp add: raisedError_def)
next
  case (Some r)
  with init_cases [of b config a w] obtain x where "r = Inr x" by blast
  with Some show ?thesis by (simp add: raisedError_def)
qed

lemma init_created:
  assumes "init b config a w \<noteq> None"
  shows "createdElements (init b config a w) = Some (initialChildren config)"
proof -
  from assms obtain r where r: "init b config a w = Some r" by blast
  with init_cases [of b config a w] obtain sz sheet cv calls where
    "r = Inr ((configured config a)
                      \<lparr>htmlTextContainer := Some
                          \<lparr>containerClassList = [''textAssembleAnimationWrapper''],
                           children = initialChildren config,
                           styleFontSize = sz, styleDisplay = ''flex'', placement = Detached\<rparr>,
                       htmlTextDiv := Some (nat (textPartCount config)),
                       stylesheet := sheet\<rparr>,
                    w\<lparr>canvas := cv, randomCalls := calls, resizeListeners := Suc (resizeListeners w)\<rparr>)"
    by blast
  with r show ?thesis by (simp add: createdElements_def)
qed

lemma forEachPart_initial:
  assumes "classList_contains ''text'' cl" and "ccl = []"
  shows "forEachPart f (c\<lparr>children := replicate n \<lparr>classList = cl, textContent = t, styleOpacity = o1\<rparr>
                                     @ [\<lparr>classList = ccl, textContent = t, styleOpacity = o2\<rparr>]\<rparr>)
       = c\<lparr>children := replicate n \<lparr>classList = f cl, textContent = t, styleOpacity = o1\<rparr>
                                     @ [\<lparr>classList = ccl, textContent = t, styleOpacity = o2\<rparr>]\<rparr>"
  using assms by (simp add: forEachPart_def classList_contains_def)

lemma setGhostOpacity_last:
  "setGhostOpacity (Some (length xs)) v (c\<lparr>children := xs @ [g]\<rparr>)
     = c\<lparr>children := xs @ [g\<lparr>styleOpacity := v\<rparr>]\<rparr>"
  by (simp add: setGhostOpacity_def)

lemma play_initial:
  assumes "htmlTextContainer a = Some c" and "children c = replicate n (textPartDiv t) @ [ghostDiv t]"
    and "htmlTextDiv a = Some n"
  shows "play a w =
           (a\<lparr>htmlTextContainer := Some (c\<lparr>children := replicate n (playingPartDiv t) @ [(ghostDiv t)\<lparr>styleOpacity := ''0''\<rparr>]\<rparr>)\<rparr>,
            w\<lparr>pendingTimeouts := pendingTimeouts w @ [(now w + max 0 ((startDelay_inS a + duration_inS a) * 1000), settle)]\<rparr>)"
proof -
  have c: "c = c\<lparr>children := replicate n (textPartDiv t) @ [ghostDiv t]\<rparr>"
    using assms(2) by simp
  let ?f = "\<lambda>cl. let cl = (if classList_contains ''textAssembleAnimation'' cl
                          then classList_remove ''textAssembleAnimation'' cl else cl);
                    cl = classList_add ''textAssembleAnimation'' cl
                in if classList_contains ''hide'' cl then classList_remove ''hide'' cl else cl"
  have f: "?f [''text'', ''hide''] = [''text'', ''textAssembleAnimation'']"
    by (simp add: classList_contains_def classList_remove_def classList_add_def Let_def)
  have "forEachPart ?f c = c\<lparr>children := replicate n (playingPartDiv t) @ [ghostDiv t]\<rparr>"
    apply (subst c)
    unfolding textPartDiv_def ghostDiv_def playingPartDiv_def
    apply (subst forEachPart_initial)
      apply (simp_all add: classList_contains_def classList_remove_def classList_add_def Let_def)
    done
  moreover have "setGhostOpacity (Some n) ''0'' (c\<lparr>children := replicate n (playingPartDiv t) @ [ghostDiv t]\<rparr>)
      = c\<lparr>children := replicate n (playingPartDiv t) @ [(ghostDiv t)\<lparr>styleOpacity := ''0''\<rparr>]\<rparr>"
    using setGhostOpacity_last [where xs = "replicate n (playingPartDiv t)" and v = "''0''" and c = c and g = "ghostDiv t"] by simp
  ultimately show ?thesis
    using assms(1,3) by (simp add: play_def Let_def setTimeout_def)
qed

lemma settle_playing:
  assumes "htmlTextContainer a = Some c"
    and "children c = replicate n (playingPartDiv t) @ [(ghostDiv t)\<lparr>styleOpacity := ''0''\<rparr>]"
    and "htmlTextDiv a = Some n"
  shows "settle a = a\<lparr>htmlTextContainer := Some (c\<lparr>children := replicate n (textPartDiv t) @ [ghostDiv t]\<rparr>)\<rparr>"
proof -
  have c: "c = c\<lparr>children := replicate n (playingPartDiv t) @ [(ghostDiv t)\<lparr>styleOpacity := ''0''\<rparr>]\<rparr>"
    using assms(2) by simp
  let ?f = "\<lambda>cl. let cl = classList_remove ''textAssembleAnimation'' cl
                     in if \<not> classList_contains ''hide'' cl then classList_add ''hide'' cl else cl"
  have f: "?f [''text'', ''textAssembleAnimation''] = [''text'', ''hide'']"
    by (simp add: classList_contains_def classList_remove_def classList_add_def Let_def)
  have "forEachPart ?f c = c\<lparr>children := replicate n (textPartDiv t) @ [(ghostDiv t)\<lparr>styleOpacity := ''0''\<rparr>]\<rparr>"
    apply (subst c)
    unfolding textPartDiv_def ghostDiv_def playingPartDiv_def
    apply simp
    apply (subst forEachPart_initial)
      apply (simp_all add: classList_contains_def classList_remove_def classList_add_def Let_def)
    done
  moreover have "setGhostOpacity (Some n) ''1'' (c\<lparr>children := replicate n (textPartDiv t) @ [(ghostDiv t)\<lparr>styleOpacity := ''0''\<rparr>]\<rparr>)
      = c\<lparr>children := replicate n (textPartDiv t) @ [ghostDiv t]\<rparr>"
    using setGhostOpacity_last [where xs = "replicate n (textPartDiv t)" and v = "''1''" and c = c and g = "(ghostDiv t)\<lparr>styleOpacity := ''0''\<rparr>"]
    by (simp add: ghostDiv_def)
  ultimately show ?thesis
    using assms(1,3) by (simp add: settle_def Let_def)
qed

lemma elapse_single_due:
  assumes "pendingTimeouts w = [(due, callback)]" and "due \<le> now w + dt"
  shows "elapse dt (a, w) = (callback a, w\<lparr>now := now w + dt, pendingTimeouts := []\<rparr>)"
  using assms by (simp add: elapse_def Let_def)

lemma elapse_single_early:
  assumes "pendingTimeouts w = [(due, callback)]" and "\<not> due \<le> now w + dt"
  shows "elapse dt (a, w) = (a, w\<lparr>now := now w + dt\<rparr>)"
  using assms by (simp add: elapse_def Let_def)

lemma parts_initial:
  assumes "htmlTextContainer a = Some c"
    and "children c = replicate n \<lparr>classList = cl, textContent = t, styleOpacity = o1\<rparr> @ [\<lparr>classList = [], textContent = t, styleOpacity = o2\<rparr>]"
    and "classList_contains ''text'' cl"
  shows "parts a = replicate n \<lparr>classList = cl, textContent = t, styleOpacity = o1\<rparr>"
  using assms by (simp add: parts_def classList_contains_def)

lemma ghost_last:
  assumes "htmlTextContainer a = Some c" and "children c = xs @ [g]" and "htmlTextDiv a = Some (length xs)"
  shows "ghost a = Some g"
  using assms by (simp add: ghost_def)

text \<open>
  C9. After \<^verbatim>\<open>init\<close> with part count \<open>N\<close>, duration \<open>d\<close> and start delay \<open>s\<close>
  (\<open>s + d\<close> not negative, no timeout pending before): when \<^verbatim>\<open>play()\<close> has returned,
  there are \<open>N\<close> part elements, none hidden and all animated, and the ghost has
  opacity 0; when \<open>(s + d) * 1000\<close> milliseconds have passed, the settle callback has
  run, all \<open>N\<close> parts are hidden again and the ghost has opacity 1; before that time
  nothing changes.
\<close>

theorem play_then_settle:
  assumes "init b config a0 w0 = Some (Inr (a, w))"
    and "pendingTimeouts w0 = []"
    and "0 \<le> cfg_startDelay_inS config + cfg_duration_inS config"
  shows "length (parts (fst (play a w))) = nat (textPartCount config)
       \<and> (\<forall>e \<in> set (parts (fst (play a w))). \<not> isHidden e \<and> isAnimated e)
       \<and> map_option styleOpacity (ghost (fst (play a w))) = Some ''0''
       \<and> length (parts (fst (elapse ((cfg_startDelay_inS config + cfg_duration_inS config) * 1000) (play a w))))
           = nat (textPartCount config)
       \<and> (\<forall>e \<in> set (parts (fst (elapse ((cfg_startDelay_inS config + cfg_duration_inS config) * 1000) (play a w)))).
             isHidden e \<and> \<not> isAnimated e)
       \<and> map_option styleOpacity
            (ghost (fst (elapse ((cfg_startDelay_inS config + cfg_duration_inS config) * 1000) (play a w))))
           = Some ''1''
       \<and> (\<forall>dt. dt < (cfg_startDelay_inS config + cfg_duration_inS config) * 1000 \<longrightarrow>
             fst (elapse dt (play a w)) = fst (play a w))"
proof -
  define n where "n = nat (textPartCount config)"
  define t where "t = cfg_text config"
  define D where "D = (cfg_startDelay_inS config + cfg_duration_inS config) * 1000"
  have D0: "0 \<le> D" unfolding D_def using assms(3) by simp
  from init_cases [of b config a0 w0] assms(1) obtain sz sheet cv calls where
    r: "Inr (a, w) = Inr ((configured config a0)
                      \<lparr>htmlTextContainer := Some
                          \<lparr>containerClassList = [''textAssembleAnimationWrapper''],
                           children = initialChildren config,
                           styleFontSize = sz, styleDisplay = ''flex'', placement = Detached\<rparr>,
                       htmlTextDiv := Some (nat (textPartCount config)),
                       stylesheet := sheet\<rparr>,
                    w0\<lparr>canvas := cv, randomCalls := calls, resizeListeners := Suc (resizeListeners w0)\<rparr>)"
    by blast
  define c where "c = \<lparr>containerClassList = [''textAssembleAnimationWrapper''],
                           children = initialChildren config,
                           styleFontSize = sz, styleDisplay = ''flex'', placement = Detached\<rparr>"
  have a: "htmlTextContainer a = Some c" "htmlTextDiv a = Some n"
      "startDelay_inS a = cfg_startDelay_inS config" "duration_inS a = cfg_duration_inS config"
    using r by (simp_all add: c_def n_def configured_def)
  have w: "pendingTimeouts w = []" using r assms(2) by auto
  have cc: "children c = replicate n (textPartDiv t) @ [ghostDiv t]"
    by (simp add: c_def initialChildren_def n_def t_def)
  define c1 where "c1 = c\<lparr>children := replicate n (playingPartDiv t) @ [(ghostDiv t)\<lparr>styleOpacity := ''0''\<rparr>]\<rparr>"
  define a1 where "a1 = a\<lparr>htmlTextContainer := Some c1\<rparr>"
  define w1 where "w1 = w\<lparr>pendingTimeouts := [(now w + D, settle)]\<rparr>"
  have pl: "play a w = (a1, w1)"
    unfolding play_initial [OF a(1) cc a(2)] a1_def c1_def w1_def using w D0
    by (simp add: a(3,4) D_def max_def)
  have a1: "htmlTextContainer a1 = Some c1" "htmlTextDiv a1 = Some n" by (simp_all add: a1_def a(2))
  have c1c: "children c1 = replicate n (playingPartDiv t) @ [(ghostDiv t)\<lparr>styleOpacity := ''0''\<rparr>]"
    by (simp add: c1_def)
  have parts1: "parts a1 = replicate n (playingPartDiv t)"
    using parts_initial [OF a1(1), of n "[''text'', ''textAssembleAnimation'']" t "[]" "''0''"] c1c
    by (simp add: playingPartDiv_def ghostDiv_def classList_contains_def)
  have ghost1: "ghost a1 = Some ((ghostDiv t)\<lparr>styleOpacity := ''0''\<rparr>)"
    using ghost_last [OF a1(1), of "replicate n (playingPartDiv t)" "(ghostDiv t)\<lparr>styleOpacity := ''0''\<rparr>"] c1c a1(2)
    by simp
  define c2 where "c2 = c1\<lparr>children := replicate n (textPartDiv t) @ [ghostDiv t]\<rparr>"
  define a2 where "a2 = a1\<lparr>htmlTextContainer := Some c2\<rparr>"
  have st: "settle a1 = a2"
    unfolding a2_def c2_def by (rule settle_playing [OF a1(1) c1c a1(2)])
  have w1p: "pendingTimeouts w1 = [(now w + D, settle)]" "now w1 = now w" by (simp_all add: w1_def)
  have el: "elapse D (play a w) = (a2, w1\<lparr>now := now w1 + D, pendingTimeouts := []\<rparr>)"
    unfolding pl using elapse_single_due [OF w1p(1), of D a1] w1p(2) st by simp
  have a2: "htmlTextContainer a2 = Some c2" "htmlTextDiv a2 = Some n" by (simp_all add: a2_def a1(2))
  have c2c: "children c2 = replicate n (textPartDiv t) @ [ghostDiv t]" by (simp add: c2_def)
  have parts2: "parts a2 = replicate n (textPartDiv t)"
    using parts_initial [OF a2(1), of n "[''text'', ''hide'']" t "[]" "''1''"] c2c
    by (simp add: textPartDiv_def ghostDiv_def classList_contains_def)
  have ghost2: "ghost a2 = Some (ghostDiv t)"
    using ghost_last [OF a2(1), of "replicate n (textPartDiv t)" "ghostDiv t"] c2c a2(2) by simp
  have early: "fst (elapse dt (play a w)) = fst (play a w)" if "dt < D" for dt
  proof -
    have "\<not> now w + D \<le> now w1 + dt" using that w1p(2) by simp
    from elapse_single_early [OF w1p(1) this, of a1] show ?thesis unfolding pl by simp
  qed
  have p1: "length (parts (fst (play a w))) = n" by (simp add: pl parts1)
  have p2: "\<forall>e \<in> set (parts (fst (play a w))). \<not> isHidden e \<and> isAnimated e"
    by (simp add: pl parts1 isHidden_def isAnimated_def playingPartDiv_def classList_contains_def)
  have p3: "map_option styleOpacity (ghost (fst (play a w))) = Some ''0''"
    by (simp add: pl ghost1)
  have p4: "length (parts (fst (elapse D (play a w)))) = n" by (simp add: el parts2)
  have p5: "\<forall>e \<in> set (parts (fst (elapse D (play a w)))). isHidden e \<and> \<not> isAnimated e"
    by (simp add: el parts2 isHidden_def isAnimated_def textPartDiv_def classList_contains_def)
  have p6: "map_option styleOpacity (ghost (fst (elapse D (play a w)))) = Some ''1''"
    by (simp add: el ghost2 ghostDiv_def)
  have p7: "\<forall>dt. dt < D \<longrightarrow> fst (elapse dt (play a w)) = fst (play a w)"
    using early by blast
  show ?thesis
    using p1 p2 p3 p4 p5 p6 p7 unfolding n_def D_def by (intro conjI)
qed

section \<open>The clip rules of \<^verbatim>\<open>#createCSSTextParts\<close>\<close>

lemma createCSSTextParts_added:
  assumes "htmlTextContainer a = Some c" and "children c \<noteq> []"
  shows "(\<exists>a' w'. createCSSTextParts b a w = Inr (a', w')
                \<and> stylesheet a' = stylesheet a @ addedRules a (createCSSTextParts b a w))
       \<and> addedRules a (createCSSTextParts b a w) =
           map (cssTextPartRule a (partGrid (textCount a))
                  (vec_x (textBox b (anim_text a) (elementFont b (styleFontSize c))))
                  (vec_y (textBox b (anim_text a) (elementFont b (styleFontSize c)))))
               [0 ..< nat (textCount a)]"
proof -
  obtain sz where sz: "getCSSFontSize (elementFont b (styleFontSize c)) = Str sz"
    using getCSSFontSize_elementFont by blast
  show ?thesis
    unfolding createCSSTextParts_eq [OF assms sz] by (simp add: addedRules_def textBox_def sz)
qed

lemma createCSSTextParts_square:
  assumes "htmlTextContainer a = Some c" and "children c \<noteq> []"
    and "0 < g" and "g \<le> 2 ^ 26" and "textCount a = int (g * g)"
  shows "\<exists>a' w'. createCSSTextParts b a w = Inr (a', w')
                \<and> stylesheet a' = stylesheet a @ addedRules a (createCSSTextParts b a w)"
    and "length (addedRules a (createCSSTextParts b a w)) = g * g"
    and "i < g * g \<Longrightarrow> addedRules a (createCSSTextParts b a w) ! i =
           specPartRule a g (vec_x (textBox b (anim_text a) (elementFont b (styleFontSize c))))
                            (vec_y (textBox b (anim_text a) (elementFont b (styleFontSize c)))) i"
proof -
  note ad = createCSSTextParts_added [OF assms(1,2), where b = b and w = w]
  show "\<exists>a' w'. createCSSTextParts b a w = Inr (a', w')
                \<and> stylesheet a' = stylesheet a @ addedRules a (createCSSTextParts b a w)"
    using ad by (rule conjunct1)
  have n: "nat (textCount a) = g * g" by (simp only: assms(5) nat_int)
  show "length (addedRules a (createCSSTextParts b a w)) = g * g"
    unfolding ad [THEN conjunct2] n by simp
  assume i: "i < g * g"
  show "addedRules a (createCSSTextParts b a w) ! i =
           specPartRule a g (vec_x (textBox b (anim_text a) (elementFont b (styleFontSize c))))
                            (vec_y (textBox b (anim_text a) (elementFont b (styleFontSize c)))) i"
    unfolding ad [THEN conjunct2] n unfolding assms(5) using i
    by (simp del: of_nat_mult add: cssTextPartRule_square [OF assms(3,4) i])
qed

text \<open>
  C4, as amended. On an animation whose container has a child and whose part count is
  \<open>g * g\<close> with \<open>0 < g \<le> 2\<^sup>2\<^sup>6\<close>, \<^verbatim>\<open>#createCSSTextParts\<close> ends without an error and adds
  exactly \<open>g * g\<close> rules behind those of the stylesheet, the rule of part \<open>i\<close> at
  position \<open>i\<close>. For the measured text box
  of width \<open>W\<close> and height \<open>H\<close>, that rule clips child \<open>i + 1\<close> to the rectangle at the
  position \<open>((i mod g) * (W / g), (i div g) * (H / g))\<close> with the size \<open>(W / g, H / g)\<close>,
  the cells counted row by row, where every quotient, product and sum is the double
  operation. When the computation of the cells incurs no rounding error on either
  axis, every point of the box is shown by exactly one of the rules: the cells tile the
  box without gap or overlap. With rounding, the edges of neighbouring cells agree only
  up to the last bit.
\<close>

theorem createCSSTextParts_partition:
  assumes "htmlTextContainer a = Some c" and "children c \<noteq> []"
    and "0 < g" and "g \<le> 2 ^ 26" and "textCount a = int (g * g)"
    and "box = textBox b (anim_text a) (elementFont b (styleFontSize c))"
  shows "(\<exists>a' w'. createCSSTextParts b a w = Inr (a', w')
                \<and> stylesheet a' = stylesheet a @ addedRules a (createCSSTextParts b a w))
       \<and> length (addedRules a (createCSSTextParts b a w)) = g * g
       \<and> (\<forall>i < g * g. addedRules a (createCSSTextParts b a w) ! i
                          = specPartRule a g (vec_x box) (vec_y box) i)
       \<and> (0 < vec_x box \<and> 0 < vec_y box \<and> exactCells g (vec_x box) \<and> exactCells g (vec_y box) \<longrightarrow>
            (\<forall>px py. 0 \<le> px \<and> px < vec_x box \<and> 0 \<le> py \<and> py < vec_y box \<longrightarrow>
               (\<exists>!i. i < g * g \<and> pointInRule (addedRules a (createCSSTextParts b a w) ! i) px py)))"
proof (intro conjI allI impI)
  note sq = createCSSTextParts_square [OF assms(1,2,3,4,5), where b = b and w = w, folded assms(6)]
  show "\<exists>a' w'. createCSSTextParts b a w = Inr (a', w')
                \<and> stylesheet a' = stylesheet a @ addedRules a (createCSSTextParts b a w)"
    by (rule sq(1))
  show "length (addedRules a (createCSSTextParts b a w)) = g * g" by (rule sq(2))
  show "addedRules a (createCSSTextParts b a w) ! i = specPartRule a g (vec_x box) (vec_y box) i"
    if "i < g * g" for i using that by (rule sq(3))
  show "\<exists>!i. i < g * g \<and> pointInRule (addedRules a (createCSSTextParts b a w) ! i) px py"
    if e: "0 < vec_x box \<and> 0 < vec_y box \<and> exactCells g (vec_x box) \<and> exactCells g (vec_y box)"
      and p: "0 \<le> px \<and> px < vec_x box \<and> 0 \<le> py \<and> py < vec_y box" for px py
  proof -
    have same: "i < g * g \<and> pointInRule (addedRules a (createCSSTextParts b a w) ! i) px py
             \<longleftrightarrow> i < g * g \<and> pointInRule (specPartRule a g (vec_x box) (vec_y box) i) px py" for i
      using sq(3) [of i] by (cases "i < g * g") simp_all
    have "\<exists>!i. i < g * g \<and> pointInRule (specPartRule a g (vec_x box) (vec_y box) i) px py"
      by (rule part_tiling) (use assms(3) e p in simp_all)
    then show ?thesis unfolding same .
  qed
qed

section \<open>The animation on the concrete page\<close>

lemma demo_elementFont:
  "elementFont (proportionalBrowser w h g) ''30rem'' = ''400 480px serif''"
proof -
  have "cssSizeInPx ''30rem'' = 480"
    by (simp add: cssSizeInPx_def isDigit_def digitsToNumber_def digitValue_def)
  moreover have "numberToString 480 = ''480''"
    by (simp add: numberToString.simps digitChar_def)
  ultimately show ?thesis
    by (simp add: elementFont_def proportionalBrowser_def orDefault_def)
qed

lemma demo_clamp:
  "clampFontSizeToScreenPadding (proportionalBrowser 2000 1000 (3 / 4)) ''Jonas'' ''400 480px serif'' 20 c
     = Some (Str ''480px'', \<lparr>contextFont = ''400 480px serif''\<rparr>)"
proof -
  let ?b = "proportionalBrowser 2000 1000 (3 / 4)"
  have area: "availableArea ?b 20 = \<lparr>vec_x = 1600, vec_y = 800\<rparr>" by (simp add: proportional_area)
  have px: "fontPx ''400 480px serif'' = 480"
    by (simp add: fontPx_def getCSSFontSize_def cssSizeInPx_def isDigit_def digitsToNumber_def digitValue_def)
  have "fitsAlready ?b ''Jonas'' ''400 480px serif'' (availableArea ?b 20)"
    by (simp add: fitsAlready_def area proportional_measures px)
  then have "clampFontSizeToScreenPadding ?b ''Jonas'' ''400 480px serif'' 20 c
     = Some (getCSSFontSize ''400 480px serif'', \<lparr>contextFont = ''400 480px serif''\<rparr>)"
    by (rule clamp_fits)
  moreover have "getCSSFontSize ''400 480px serif'' = Str ''480px''"
    by (simp add: getCSSFontSize_def)
  ultimately show ?thesis by simp
qed

lemma demo_init_returns:
  "init (proportionalBrowser 2000 1000 (3 / 4)) (demoConfig n) a freshWorld \<noteq> None"
proof -
  have "clampFontSizeToScreenPadding (proportionalBrowser 2000 1000 (3 / 4)) (cfg_text (demoConfig n))
          (elementFont (proportionalBrowser 2000 1000 (3 / 4)) (cssFontSize (demoConfig n)))
          (cfg_minScreenPadding_inPC (demoConfig n)) (canvas freshWorld) \<noteq> None"
    by (simp add: demoConfig_def demo_elementFont demo_clamp)
  then show ?thesis
    unfolding init_cases [THEN conjunct1, of "proportionalBrowser 2000 1000 (3 / 4)" "demoConfig n" a freshWorld] .
qed

lemma demo_init_initialised:
  "init (proportionalBrowser 2000 1000 (3 / 4)) (demoConfig n) a freshWorld
     = Some (Inr (initialised (init (proportionalBrowser 2000 1000 (3 / 4)) (demoConfig n) a freshWorld)))"
proof -
  obtain r where r: "init (proportionalBrowser 2000 1000 (3 / 4)) (demoConfig n) a freshWorld = Some r"
    using demo_init_returns [of n a] by blast
  with init_cases [THEN conjunct2, of "proportionalBrowser 2000 1000 (3 / 4)" "demoConfig n" a freshWorld]
  obtain st where "r = Inr st" by blast
  with r show ?thesis by (simp add: initialised_def)
qed

text \<open>
  C3, counterexample. With part count 50, which is not a perfect square, \<^verbatim>\<open>init\<close>
  returns without an error, and the container holds 50 part elements and the ghost.
\<close>

theorem init_accepts_partCount_50:
  "raisedError (init (proportionalBrowser 2000 1000 (3 / 4)) (demoConfig 50) newTextAssembleAnimation freshWorld) = None
   \<and> createdElements (init (proportionalBrowser 2000 1000 (3 / 4)) (demoConfig 50) newTextAssembleAnimation freshWorld)
       = Some (replicate 50 (textPartDiv ''Jonas'') @ [ghostDiv ''Jonas''])"
proof -
  have "createdElements (init (proportionalBrowser 2000 1000 (3 / 4)) (demoConfig 50) newTextAssembleAnimation freshWorld)
       = Some (initialChildren (demoConfig 50))"
    using demo_init_returns by (rule init_created)
  moreover have "initialChildren (demoConfig 50) = replicate 50 (textPartDiv ''Jonas'') @ [ghostDiv ''Jonas'']"
    by (simp add: initialChildren_def demoConfig_def)
  ultimately show ?thesis using init_never_raises by simp
qed

text \<open>
  C3, as amended. \<^verbatim>\<open>init\<close> does not validate the part count: for every configuration
  it ends with no error; it returns exactly when the font search on the configured
  text returns; and when it returns, the container holds as many hidden part elements
  as the part count says (none for a count of zero or less), followed by the ghost.
\<close>

theorem init_does_not_validate_partCount:
  "raisedError (init b config a w) = None
   \<and> (init b config a w = None \<longleftrightarrow>
        clampFontSizeToScreenPadding b (cfg_text config) (elementFont b (cssFontSize config))
          (cfg_minScreenPadding_inPC config) (canvas w) = None)
   \<and> (init b config a w \<noteq> None \<longrightarrow>
        createdElements (init b config a w)
          = Some (replicate (nat (textPartCount config)) (textPartDiv (cfg_text config)) @ [ghostDiv (cfg_text config)]))"
  using init_never_raises [of b config a w] init_cases [of b config a w] init_created [of b config a w]
  unfolding initialChildren_def by blast

theorem init_does_not_validate_partCount_witness:
  "init (proportionalBrowser 2000 1000 (3 / 4)) (demoConfig (- 3)) newTextAssembleAnimation freshWorld \<noteq> None
   \<and> raisedError (init (proportionalBrowser 2000 1000 (3 / 4)) (demoConfig (- 3)) newTextAssembleAnimation freshWorld) = None
   \<and> createdElements (init (proportionalBrowser 2000 1000 (3 / 4)) (demoConfig (- 3)) newTextAssembleAnimation freshWorld)
       = Some [ghostDiv ''Jonas'']"
proof -
  have h: "init (proportionalBrowser 2000 1000 (3 / 4)) (demoConfig (- 3)) newTextAssembleAnimation freshWorld \<noteq> None"
    by (rule demo_init_returns)
  note t = init_does_not_validate_partCount
      [of "proportionalBrowser 2000 1000 (3 / 4)" "demoConfig (- 3)" newTextAssembleAnimation freshWorld]
  have e: "raisedError (init (proportionalBrowser 2000 1000 (3 / 4)) (demoConfig (- 3)) newTextAssembleAnimation freshWorld) = None"
    using t by (rule conjunct1)
  have "createdElements (init (proportionalBrowser 2000 1000 (3 / 4)) (demoConfig (- 3)) newTextAssembleAnimation freshWorld)
          = Some (replicate (nat (textPartCount (demoConfig (- 3)))) (textPartDiv (cfg_text (demoConfig (- 3))))
                  @ [ghostDiv (cfg_text (demoConfig (- 3)))])"
    using t [THEN conjunct2, THEN conjunct2] h by (rule mp)
  moreover have "nat (textPartCount (demoConfig (- 3))) = 0" "cfg_text (demoConfig (- 3)) = ''Jonas''"
    by (simp_all add: demoConfig_def)
  ultimately have c: "createdElements (init (proportionalBrowser 2000 1000 (3 / 4)) (demoConfig (- 3)) newTextAssembleAnimation freshWorld)
          = Some [ghostDiv ''Jonas'']"
    by simp
  from h e c show ?thesis by (intro conjI)
qed

theorem play_then_settle_witness:
  "init (proportionalBrowser 2000 1000 (3 / 4)) (demoConfig 49) newTextAssembleAnimation freshWorld
     = Some (Inr (initialised (init (proportionalBrowser 2000 1000 (3 / 4)) (demoConfig 49) newTextAssembleAnimation freshWorld)))
   \<and> pendingTimeouts freshWorld = []
   \<and> 0 \<le> cfg_startDelay_inS (demoConfig 49) + cfg_duration_inS (demoConfig 49)
   \<and> length (parts (fst (play
        (fst (initialised (init (proportionalBrowser 2000 1000 (3 / 4)) (demoConfig 49) newTextAssembleAnimation freshWorld)))
        (snd (initialised (init (proportionalBrowser 2000 1000 (3 / 4)) (demoConfig 49) newTextAssembleAnimation freshWorld)))))) = 49
   \<and> map_option styleOpacity (ghost (fst (play
        (fst (initialised (init (proportionalBrowser 2000 1000 (3 / 4)) (demoConfig 49) newTextAssembleAnimation freshWorld)))
        (snd (initialised (init (proportionalBrowser 2000 1000 (3 / 4)) (demoConfig 49) newTextAssembleAnimation freshWorld)))))) = Some ''0''
   \<and> map_option styleOpacity (ghost (fst (elapse 11000 (play
        (fst (initialised (init (proportionalBrowser 2000 1000 (3 / 4)) (demoConfig 49) newTextAssembleAnimation freshWorld)))
        (snd (initialised (init (proportionalBrowser 2000 1000 (3 / 4)) (demoConfig 49) newTextAssembleAnimation freshWorld))))))) = Some ''1''"
proof -
  let ?r = "init (proportionalBrowser 2000 1000 (3 / 4)) (demoConfig 49) newTextAssembleAnimation freshWorld"
  have h1: "?r = Some (Inr (fst (initialised ?r), snd (initialised ?r)))"
    using demo_init_initialised [of 49 newTextAssembleAnimation] by simp
  have h2: "pendingTimeouts freshWorld = []" by (simp add: freshWorld_def)
  have h3: "0 \<le> cfg_startDelay_inS (demoConfig 49) + cfg_duration_inS (demoConfig 49)"
    by (simp add: demoConfig_def)
  have d: "(cfg_startDelay_inS (demoConfig 49) + cfg_duration_inS (demoConfig 49)) * 1000 = 11000"
      "nat (textPartCount (demoConfig 49)) = 49"
    by (simp_all add: demoConfig_def)
  from play_then_settle [OF h1 h2 h3] demo_init_initialised [of 49 newTextAssembleAnimation] h2 h3
  show ?thesis unfolding d by simp
qed

lemma upt7: "[0 ..< 7] = [0, 1, 2, 3, 4, 5, 6 :: nat]"
  by (simp add: upt_rec)

lemma sizedAnimation_demo:
  "htmlTextContainer (sizedAnimation (demoConfig n) sz) =
     Some \<lparr>containerClassList = [''textAssembleAnimationWrapper''],
           children = replicate (nat n) (textPartDiv ''Jonas'') @ [ghostDiv ''Jonas''],
           styleFontSize = sz, styleDisplay = [], placement = Detached\<rparr>"
  "anim_text (sizedAnimation (demoConfig n) sz) = ''Jonas''"
  "textCount (sizedAnimation (demoConfig n) sz) = n"
  "stylesheet (sizedAnimation (demoConfig n) sz) = []"
  "duration_inS (sizedAnimation (demoConfig n) sz) = 10"
  "startDelay_inS (sizedAnimation (demoConfig n) sz) = 1"
  by (simp_all add: sizedAnimation_def Let_def createHTML_eq configured_def demoConfig_def
        newTextAssembleAnimation_def)

lemma demo_textBox:
  "textBox (proportionalBrowser w h g) ''Jonas'' ''400 480px serif'' = \<lparr>vec_x = 1200, vec_y = 600\<rparr>"
proof -
  have px: "fontPx ''400 480px serif'' = 480"
    by (simp add: fontPx_def getCSSFontSize_def cssSizeInPx_def isDigit_def digitsToNumber_def digitValue_def)
  have sz: "getCSSFontSize ''400 480px serif'' = Str ''480px''"
    by (simp add: getCSSFontSize_def)
  have f: "filter isDigit ''480px'' = ''480''" by (simp add: isDigit_def)
  have d: "digitsToNumber ''480'' = 480"
    by (simp add: isDigit_def digitsToNumber_def digitValue_def)
  show ?thesis
    unfolding textBox_def sz jsString.case f d by (simp add: proportional_measures px)
qed

lemma seven_rem_elementFont:
  "elementFont (proportionalBrowser w h g) ''7rem'' = ''400 112px serif''"
proof -
  have "cssSizeInPx ''7rem'' = 112"
    by (simp add: cssSizeInPx_def isDigit_def digitsToNumber_def digitValue_def)
  moreover have "numberToString 112 = ''112''"
    by (simp add: numberToString.simps digitChar_def)
  ultimately show ?thesis
    by (simp add: elementFont_def proportionalBrowser_def orDefault_def)
qed

lemma seven_rem_textBox:
  "textBox (proportionalBrowser w h g) ''Jonas'' ''400 112px serif'' = \<lparr>vec_x = 280, vec_y = 140\<rparr>"
proof -
  have px: "fontPx ''400 112px serif'' = 112"
    by (simp add: fontPx_def getCSSFontSize_def cssSizeInPx_def isDigit_def digitsToNumber_def digitValue_def)
  have sz: "getCSSFontSize ''400 112px serif'' = Str ''112px''"
    by (simp add: getCSSFontSize_def)
  have f: "filter isDigit ''112px'' = ''112''" by (simp add: isDigit_def)
  have d: "digitsToNumber ''112'' = 112"
    by (simp add: isDigit_def digitsToNumber_def digitValue_def)
  show ?thesis
    unfolding textBox_def sz jsString.case f d by (simp add: proportional_measures px)
qed

lemma exactCells_examples: "exactCells 7 280" "exactCells 7 140"
  by (simp_all add: exactCells_def Let_def upt7 roundDouble_numeral)

lemma specPartRule_example:
  "specPartRule a 7 280 140 10 =
     PartRule 11 \<lparr>vec_x = 120, vec_y = 20\<rparr> \<lparr>vec_x = 160, vec_y = 20\<rparr> \<lparr>vec_x = 160, vec_y = 40\<rparr>
       \<lparr>vec_x = 120, vec_y = 40\<rparr> 11 (duration_inS a) (startDelay_inS a)"
  by (simp add: specPartRule_def Let_def roundDouble_numeral)

lemma overlap_values:
  "roundDouble (1200 / 9) = 4691249611844267 / 2 ^ 45"
  "roundDouble (600 / 9) = 4691249611844267 / 2 ^ 46"
  "roundDouble (5 * (4691249611844267 / 2 ^ 45)) = 5864062014805334 / 2 ^ 43"
  "roundDouble (6 * (4691249611844267 / 2 ^ 45)) = 800"
  "roundDouble (5864062014805334 / 2 ^ 43 + 4691249611844267 / 2 ^ 45) = 800 + 1 / 2 ^ 43"
  "roundDouble (800 + 4691249611844267 / 2 ^ 45) = 8209686820727467 / 2 ^ 43"
  "roundDouble (0 * (4691249611844267 / 2 ^ 46)) = 0"
  "roundDouble (0 + 4691249611844267 / 2 ^ 46) = 4691249611844267 / 2 ^ 46"
proof -
  show "roundDouble (1200 / 9) = 4691249611844267 / 2 ^ 45"
    using roundDouble_exponent [of 7 "1200 / 9"] by (simp add: roundHalfEven_def Let_def)
  show "roundDouble (600 / 9) = 4691249611844267 / 2 ^ 46"
    using roundDouble_exponent [of 6 "600 / 9"] by (simp add: roundHalfEven_def Let_def)
  show "roundDouble (5 * (4691249611844267 / 2 ^ 45)) = 5864062014805334 / 2 ^ 43"
    using roundDouble_exponent [of 9 "5 * (4691249611844267 / 2 ^ 45)"] by (simp add: roundHalfEven_def Let_def)
  show "roundDouble (6 * (4691249611844267 / 2 ^ 45)) = 800"
    using roundDouble_exponent [of 9 "6 * (4691249611844267 / 2 ^ 45)"] by (simp add: roundHalfEven_def Let_def)
  show "roundDouble (5864062014805334 / 2 ^ 43 + 4691249611844267 / 2 ^ 45) = 800 + 1 / 2 ^ 43"
    using roundDouble_exponent [of 9 "5864062014805334 / 2 ^ 43 + 4691249611844267 / 2 ^ 45"]
    by (simp add: roundHalfEven_def Let_def)
  show "roundDouble (800 + 4691249611844267 / 2 ^ 45) = 8209686820727467 / 2 ^ 43"
    using roundDouble_exponent [of 9 "800 + 4691249611844267 / 2 ^ 45"] by (simp add: roundHalfEven_def Let_def)
  show "roundDouble (0 * (4691249611844267 / 2 ^ 46)) = 0" by simp
  show "roundDouble (0 + 4691249611844267 / 2 ^ 46) = 4691249611844267 / 2 ^ 46"
    using roundDouble_exponent [of 6 "4691249611844267 / 2 ^ 46"] by (simp add: roundHalfEven_def Let_def)
qed

lemma specPartRule_overlap:
  "specPartRule a 9 1200 600 5 =
     PartRule 6 \<lparr>vec_x = 5864062014805334 / 2 ^ 43, vec_y = 0\<rparr>
       \<lparr>vec_x = 800 + 1 / 2 ^ 43, vec_y = 0\<rparr>
       \<lparr>vec_x = 800 + 1 / 2 ^ 43, vec_y = 4691249611844267 / 2 ^ 46\<rparr>
       \<lparr>vec_x = 5864062014805334 / 2 ^ 43, vec_y = 4691249611844267 / 2 ^ 46\<rparr>
       6 (duration_inS a) (startDelay_inS a)"
  "specPartRule a 9 1200 600 6 =
     PartRule 7 \<lparr>vec_x = 800, vec_y = 0\<rparr>
       \<lparr>vec_x = 8209686820727467 / 2 ^ 43, vec_y = 0\<rparr>
       \<lparr>vec_x = 8209686820727467 / 2 ^ 43, vec_y = 4691249611844267 / 2 ^ 46\<rparr>
       \<lparr>vec_x = 800, vec_y = 4691249611844267 / 2 ^ 46\<rparr>
       7 (duration_inS a) (startDelay_inS a)"
proof -
  have i: "real (9::nat) = 9" "real (5 mod 9 :: nat) = 5" "real (5 div 9 :: nat) = 0"
    "real (6 mod 9 :: nat) = 6" "real (6 div 9 :: nat) = 0" by simp_all
  show "specPartRule a 9 1200 600 5 =
     PartRule 6 \<lparr>vec_x = 5864062014805334 / 2 ^ 43, vec_y = 0\<rparr>
       \<lparr>vec_x = 800 + 1 / 2 ^ 43, vec_y = 0\<rparr>
       \<lparr>vec_x = 800 + 1 / 2 ^ 43, vec_y = 4691249611844267 / 2 ^ 46\<rparr>
       \<lparr>vec_x = 5864062014805334 / 2 ^ 43, vec_y = 4691249611844267 / 2 ^ 46\<rparr>
       6 (duration_inS a) (startDelay_inS a)"
    unfolding specPartRule_def Let_def i overlap_values by simp
  show "specPartRule a 9 1200 600 6 =
     PartRule 7 \<lparr>vec_x = 800, vec_y = 0\<rparr>
       \<lparr>vec_x = 8209686820727467 / 2 ^ 43, vec_y = 0\<rparr>
       \<lparr>vec_x = 8209686820727467 / 2 ^ 43, vec_y = 4691249611844267 / 2 ^ 46\<rparr>
       \<lparr>vec_x = 800, vec_y = 4691249611844267 / 2 ^ 46\<rparr>
       7 (duration_inS a) (startDelay_inS a)"
    unfolding specPartRule_def Let_def i overlap_values by simp
qed

lemma demo_parts_rule:
  assumes "i < 9 * 9"
  shows "addedRules (sizedAnimation (demoConfig 81) ''30rem'')
           (createCSSTextParts (proportionalBrowser 2000 1000 (3 / 4))
              (sizedAnimation (demoConfig 81) ''30rem'') freshWorld) ! i
         = specPartRule (sizedAnimation (demoConfig 81) ''30rem'') 9 1200 600 i"
proof -
  let ?a = "sizedAnimation (demoConfig 81) ''30rem''"
  let ?c = "\<lparr>containerClassList = [''textAssembleAnimationWrapper''],
           children = replicate (nat 81) (textPartDiv ''Jonas'') @ [ghostDiv ''Jonas''],
           styleFontSize = ''30rem'', styleDisplay = [], placement = Detached\<rparr>"
  have h1: "htmlTextContainer ?a = Some ?c" by (rule sizedAnimation_demo(1))
  have h2: "children ?c \<noteq> []" by simp
  have h3: "(0::nat) < 9" and h4: "(9::nat) \<le> 2 ^ 26" by simp_all
  have h5: "textCount ?a = int (9 * 9)" by (simp add: sizedAnimation_demo)
  have box: "textBox (proportionalBrowser 2000 1000 (3 / 4)) (anim_text ?a)
               (elementFont (proportionalBrowser 2000 1000 (3 / 4)) (styleFontSize ?c))
             = \<lparr>vec_x = 1200, vec_y = 600\<rparr>"
    by (simp add: sizedAnimation_demo demo_elementFont demo_textBox)
  from createCSSTextParts_square(3) [OF h1 h2 h3 h4 h5 assms, of "proportionalBrowser 2000 1000 (3 / 4)" freshWorld]
  show ?thesis unfolding box by simp
qed

text \<open>
  C4, counterexample. On the page above, ``Jonas'' at 30 rem measures 1200 by 600
  pixels. With 81 parts the cell is \<open>1200 / 9\<close> wide, which is not a double. The right
  edge of part 5 is computed as \<open>5 * cell + cell\<close> and is \<open>800 + 2\<^sup>-\<^sup>4\<^sup>3\<close>; the left edge of
  its neighbour, part 6, is computed as \<open>6 * cell\<close> and is 800. The point (800, 0) of the
  text box is shown by both rules: the two cells overlap.
\<close>

theorem neighbouring_parts_overlap:
  "textBox (proportionalBrowser 2000 1000 (3 / 4)) ''Jonas''
      (elementFont (proportionalBrowser 2000 1000 (3 / 4)) ''30rem'') = \<lparr>vec_x = 1200, vec_y = 600\<rparr>
   \<and> vec_x (rightBottom (addedRules (sizedAnimation (demoConfig 81) ''30rem'')
           (createCSSTextParts (proportionalBrowser 2000 1000 (3 / 4))
              (sizedAnimation (demoConfig 81) ''30rem'') freshWorld) ! 5)) = 800 + 1 / 2 ^ 43
   \<and> vec_x (leftTop (addedRules (sizedAnimation (demoConfig 81) ''30rem'')
           (createCSSTextParts (proportionalBrowser 2000 1000 (3 / 4))
              (sizedAnimation (demoConfig 81) ''30rem'') freshWorld) ! 6)) = 800
   \<and> pointInRule (addedRules (sizedAnimation (demoConfig 81) ''30rem'')
           (createCSSTextParts (proportionalBrowser 2000 1000 (3 / 4))
              (sizedAnimation (demoConfig 81) ''30rem'') freshWorld) ! 5) 800 0
   \<and> pointInRule (addedRules (sizedAnimation (demoConfig 81) ''30rem'')
           (createCSSTextParts (proportionalBrowser 2000 1000 (3 / 4))
              (sizedAnimation (demoConfig 81) ''30rem'') freshWorld) ! 6) 800 0"
proof -
  have r5: "addedRules (sizedAnimation (demoConfig 81) ''30rem'')
           (createCSSTextParts (proportionalBrowser 2000 1000 (3 / 4))
              (sizedAnimation (demoConfig 81) ''30rem'') freshWorld) ! 5
         = specPartRule (sizedAnimation (demoConfig 81) ''30rem'') 9 1200 600 5"
    by (rule demo_parts_rule) simp
  have r6: "addedRules (sizedAnimation (demoConfig 81) ''30rem'')
           (createCSSTextParts (proportionalBrowser 2000 1000 (3 / 4))
              (sizedAnimation (demoConfig 81) ''30rem'') freshWorld) ! 6
         = specPartRule (sizedAnimation (demoConfig 81) ''30rem'') 9 1200 600 6"
    by (rule demo_parts_rule) simp
  show ?thesis
    unfolding r5 r6 specPartRule_overlap
    by (simp add: demo_elementFont demo_textBox pointInRule_def)
qed

theorem createCSSTextParts_partition_witness:
  "htmlTextContainer (sizedAnimation (demoConfig 49) ''7rem'') =
     Some \<lparr>containerClassList = [''textAssembleAnimationWrapper''],
           children = replicate 49 (textPartDiv ''Jonas'') @ [ghostDiv ''Jonas''],
           styleFontSize = ''7rem'', styleDisplay = [], placement = Detached\<rparr>
   \<and> textCount (sizedAnimation (demoConfig 49) ''7rem'') = int (7 * 7)
   \<and> textBox (proportionalBrowser 2000 1000 (3 / 4)) ''Jonas''
        (elementFont (proportionalBrowser 2000 1000 (3 / 4)) ''7rem'') = \<lparr>vec_x = 280, vec_y = 140\<rparr>
   \<and> exactCells 7 280 \<and> exactCells 7 140
   \<and> (\<exists>a' w'. createCSSTextParts (proportionalBrowser 2000 1000 (3 / 4))
                 (sizedAnimation (demoConfig 49) ''7rem'') freshWorld = Inr (a', w')
              \<and> stylesheet a' = addedRules (sizedAnimation (demoConfig 49) ''7rem'')
                   (createCSSTextParts (proportionalBrowser 2000 1000 (3 / 4))
                      (sizedAnimation (demoConfig 49) ''7rem'') freshWorld))
   \<and> length (addedRules (sizedAnimation (demoConfig 49) ''7rem'')
        (createCSSTextParts (proportionalBrowser 2000 1000 (3 / 4))
           (sizedAnimation (demoConfig 49) ''7rem'') freshWorld)) = 49
   \<and> addedRules (sizedAnimation (demoConfig 49) ''7rem'')
        (createCSSTextParts (proportionalBrowser 2000 1000 (3 / 4))
           (sizedAnimation (demoConfig 49) ''7rem'') freshWorld) ! 10
       = PartRule 11 \<lparr>vec_x = 120, vec_y = 20\<rparr> \<lparr>vec_x = 160, vec_y = 20\<rparr> \<lparr>vec_x = 160, vec_y = 40\<rparr>
           \<lparr>vec_x = 120, vec_y = 40\<rparr> 11 10 1
   \<and> (\<exists>!i. i < 49 \<and> pointInRule (addedRules (sizedAnimation (demoConfig 49) ''7rem'')
        (createCSSTextParts (proportionalBrowser 2000 1000 (3 / 4))
           (sizedAnimation (demoConfig 49) ''7rem'') freshWorld) ! i) 130 25)"
proof -
  let ?b = "proportionalBrowser 2000 1000 (3 / 4)"
  let ?a = "sizedAnimation (demoConfig 49) ''7rem''"
  let ?c = "\<lparr>containerClassList = [''textAssembleAnimationWrapper''],
           children = replicate 49 (textPartDiv ''Jonas'') @ [ghostDiv ''Jonas''],
           styleFontSize = ''7rem'', styleDisplay = [], placement = Detached\<rparr>"
  let ?rs = "addedRules ?a (createCSSTextParts ?b ?a freshWorld)"
  have h1: "htmlTextContainer ?a = Some ?c" using sizedAnimation_demo(1) [of 49 "''7rem''"] by simp
  have h2: "children ?c \<noteq> []" by simp
  have h3: "(0::nat) < 7" and h4: "(7::nat) \<le> 2 ^ 26" by simp_all
  have h5: "textCount ?a = int (7 * 7)" by (simp add: sizedAnimation_demo)
  have bx: "textBox ?b ''Jonas'' (elementFont ?b ''7rem'') = \<lparr>vec_x = 280, vec_y = 140\<rparr>"
    by (simp add: seven_rem_elementFont seven_rem_textBox)
  have h6: "\<lparr>vec_x = 280, vec_y = 140\<rparr> = textBox ?b (anim_text ?a) (elementFont ?b (styleFontSize ?c))"
    using bx by (simp add: sizedAnimation_demo)
  note t = createCSSTextParts_partition [OF h1 h2 h3 h4 h5 h6, of freshWorld]
  have "\<exists>a' w'. createCSSTextParts ?b ?a freshWorld = Inr (a', w') \<and> stylesheet a' = stylesheet ?a @ ?rs"
    using t by (rule conjunct1)
  then have t1: "\<exists>a' w'. createCSSTextParts ?b ?a freshWorld = Inr (a', w') \<and> stylesheet a' = ?rs"
    by (simp add: sizedAnimation_demo)
  have t2: "length ?rs = 7 * 7"
    using t [THEN conjunct2] by (rule conjunct1)
  have t3: "\<forall>i < 7 * 7. ?rs ! i = specPartRule ?a 7 (vec_x \<lparr>vec_x = 280, vec_y = 140\<rparr>) (vec_y \<lparr>vec_x = 280, vec_y = 140\<rparr>) i"
    using t [THEN conjunct2, THEN conjunct2] by (rule conjunct1)
  have t4: "0 < vec_x \<lparr>vec_x = 280, vec_y = 140::real\<rparr> \<and> 0 < vec_y \<lparr>vec_x = 280::real, vec_y = 140\<rparr>
            \<and> exactCells 7 (vec_x \<lparr>vec_x = 280, vec_y = 140\<rparr>) \<and> exactCells 7 (vec_y \<lparr>vec_x = 280, vec_y = 140\<rparr>) \<longrightarrow>
            (\<forall>px py. 0 \<le> px \<and> px < vec_x \<lparr>vec_x = 280, vec_y = 140::real\<rparr> \<and> 0 \<le> py \<and> py < vec_y \<lparr>vec_x = 280::real, vec_y = 140\<rparr> \<longrightarrow>
               (\<exists>!i. i < 7 * 7 \<and> pointInRule (?rs ! i) px py))"
    using t [THEN conjunct2, THEN conjunct2] by (rule conjunct2)
  have "?rs ! 10 = specPartRule ?a 7 280 140 10" using t3 by simp
  then have r10: "?rs ! 10 = PartRule 11 \<lparr>vec_x = 120, vec_y = 20\<rparr> \<lparr>vec_x = 160, vec_y = 20\<rparr> \<lparr>vec_x = 160, vec_y = 40\<rparr>
           \<lparr>vec_x = 120, vec_y = 40\<rparr> 11 10 1"
    unfolding specPartRule_example by (simp add: sizedAnimation_demo)
  have "\<forall>px py. 0 \<le> px \<and> px < 280 \<and> 0 \<le> py \<and> py < 140 \<longrightarrow>
               (\<exists>!i. i < 7 * 7 \<and> pointInRule (?rs ! i) px py)"
    using t4 exactCells_examples by simp
  then have "(0::real) \<le> 130 \<and> (130::real) < 280 \<and> (0::real) \<le> 25 \<and> (25::real) < 140 \<longrightarrow>
               (\<exists>!i. i < 7 * 7 \<and> pointInRule (?rs ! i) 130 25)"
    by blast
  then have u: "\<exists>!i. i < 49 \<and> pointInRule (?rs ! i) 130 25" by simp
  from h1 h5 bx exactCells_examples t1 t2 r10 u show ?thesis by simp
qed

section \<open>Further properties of the font search\<close>

lemma remFont_same:
  assumes "getCSSFontSize fnt = Str (numberToString k @ ''rem'')"
  shows "remFont fnt k = fnt"
proof -
  from assms obtain a rest where sp: "split_js CHR '' '' fnt = a # (numberToString k @ ''rem'') # rest"
    by (auto simp: getCSSFontSize_def split: list.splits)
  have "assignIndex1 (split_js CHR '' '' fnt) (numberToString k @ ''rem'') = split_js CHR '' '' fnt"
    unfolding sp by simp
  then have "remFont fnt k = join_js '' '' (split_js CHR '' '' fnt)"
    by (simp add: remFont_def setCSSFontSize_def)
  then show ?thesis using join_split_js [of "CHR '' ''" fnt] by simp
qed

text \<open>
  X1. When the text measured at the font handed in is at most the available area in
  width and in font-intrinsic height, the function returns the size token of that font
  unchanged.
\<close>

theorem clamp_keeps_fitting_base_size:
  assumes "measuredWidth b txt fnt \<le> vec_x (availableArea b p)"
    and "fontIntrinsicHeight b fnt \<le> vec_y (availableArea b p)"
  shows "clampFontSizeToScreenPadding b txt fnt p c = Some (getCSSFontSize fnt, \<lparr>contextFont = fnt\<rparr>)"
  using assms by (intro clamp_fits) (simp add: fitsAlready_def)

theorem clamp_keeps_fitting_base_size_witness:
  "measuredWidth (proportionalBrowser 2000 1000 (3 / 4)) ''Jonas'' ''400 480px serif''
     \<le> vec_x (availableArea (proportionalBrowser 2000 1000 (3 / 4)) 20)
   \<and> fontIntrinsicHeight (proportionalBrowser 2000 1000 (3 / 4)) ''400 480px serif''
     \<le> vec_y (availableArea (proportionalBrowser 2000 1000 (3 / 4)) 20)
   \<and> clampFontSizeToScreenPadding (proportionalBrowser 2000 1000 (3 / 4)) ''Jonas'' ''400 480px serif'' 20 freshCanvas
     = Some (Str ''480px'', \<lparr>contextFont = ''400 480px serif''\<rparr>)"
proof -
  let ?b = "proportionalBrowser 2000 1000 (3 / 4)"
  have area: "availableArea ?b 20 = \<lparr>vec_x = 1600, vec_y = 800\<rparr>" by (simp add: proportional_area)
  have px: "fontPx ''400 480px serif'' = 480"
    by (simp add: fontPx_def getCSSFontSize_def cssSizeInPx_def isDigit_def digitsToNumber_def digitValue_def)
  have h1: "measuredWidth ?b ''Jonas'' ''400 480px serif'' \<le> vec_x (availableArea ?b 20)"
    by (simp add: area proportional_measures px)
  have h2: "fontIntrinsicHeight ?b ''400 480px serif'' \<le> vec_y (availableArea ?b 20)"
    by (simp add: area proportional_measures px)
  have g: "getCSSFontSize ''400 480px serif'' = Str ''480px''"
    by (simp add: getCSSFontSize_def)
  from clamp_keeps_fitting_base_size [OF h1 h2, of freshCanvas] h1 h2 g show ?thesis by simp
qed

text \<open>
  X2. When the text does not fit at the font handed in and the available area is
  positive on both axes, the function returns the first size \<open>m \<ge> 1\<close> (in rem) whose
  measurement is not strictly inside the available area: one more than the last size
  that fits.
\<close>

theorem clamp_search_result:
  assumes "\<not> (measuredWidth b txt fnt \<le> vec_x (availableArea b p)
              \<and> fontIntrinsicHeight b fnt \<le> vec_y (availableArea b p))"
    and "0 < vec_x (availableArea b p)" and "0 < vec_y (availableArea b p)"
    and "0 < m"
    and "\<forall>k. 0 < k \<and> k < m \<longrightarrow>
           measuredWidth b txt (remFont fnt k) < vec_x (availableArea b p)
           \<and> fontIntrinsicHeight b (remFont fnt k) < vec_y (availableArea b p)"
    and "\<not> (measuredWidth b txt (remFont fnt m) < vec_x (availableArea b p)
              \<and> fontIntrinsicHeight b (remFont fnt m) < vec_y (availableArea b p))"
  shows "clampFontSizeToScreenPadding b txt fnt p c
           = Some (Str (numberToString m @ ''rem''), \<lparr>contextFont = remFont fnt m\<rparr>)"
proof (rule clamp_search)
  show "\<not> fitsAlready b txt fnt (availableArea b p)" using assms(1) by (simp add: fitsAlready_def)
  show "0 < vec_x (availableArea b p) \<and> 0 < vec_y (availableArea b p)" using assms(2,3) by simp
  show "0 < m" by (rule assms(4))
  show "\<forall>k. 0 < k \<and> k < m \<longrightarrow> fitsStrictly b txt fnt (availableArea b p) k"
    using assms(5) by (simp add: fitsStrictly_def)
  show "\<not> fitsStrictly b txt fnt (availableArea b p) m"
    using assms(6) by (simp add: fitsStrictly_def)
qed

theorem clamp_search_result_witness:
  "clampFontSizeToScreenPadding (proportionalBrowser 100 600 (3 / 4)) ''Jonas'' ''bold 160px serif'' 0 freshCanvas
     = Some (Str (numberToString 3 @ ''rem''), \<lparr>contextFont = remFont ''bold 160px serif'' 3\<rparr>)
   \<and> numberToString 3 @ ''rem'' = ''3rem''"
proof -
  let ?b = "proportionalBrowser 100 600 (3 / 4)"
  let ?avail = "availableArea ?b 0"
  have area: "?avail = \<lparr>vec_x = 100, vec_y = 600\<rparr>" by (simp add: proportional_area)
  have fits: "(measuredWidth ?b ''Jonas'' (remFont ''bold 160px serif'' n) < vec_x ?avail
            \<and> fontIntrinsicHeight ?b (remFont ''bold 160px serif'' n) < vec_y ?avail) \<longleftrightarrow> n \<le> 2" for n
    using proportional_fits_example [of n] by (simp add: fitsStrictly_def)
  have h1: "\<not> (measuredWidth ?b ''Jonas'' ''bold 160px serif'' \<le> vec_x ?avail
              \<and> fontIntrinsicHeight ?b ''bold 160px serif'' \<le> vec_y ?avail)"
    by (simp add: area proportional_measures fontPx_px_examples)
  have h2: "0 < vec_x ?avail" and h3: "0 < vec_y ?avail" by (simp_all add: area)
  have h4: "(0::nat) < 3" by simp
  have h5: "\<forall>k. 0 < k \<and> k < 3 \<longrightarrow>
           measuredWidth ?b ''Jonas'' (remFont ''bold 160px serif'' k) < vec_x ?avail
           \<and> fontIntrinsicHeight ?b (remFont ''bold 160px serif'' k) < vec_y ?avail"
    unfolding fits by simp
  have h6: "\<not> (measuredWidth ?b ''Jonas'' (remFont ''bold 160px serif'' 3) < vec_x ?avail
              \<and> fontIntrinsicHeight ?b (remFont ''bold 160px serif'' 3) < vec_y ?avail)"
    unfolding fits by simp
  have "clampFontSizeToScreenPadding ?b ''Jonas'' ''bold 160px serif'' 0 freshCanvas
     = Some (Str (numberToString 3 @ ''rem''), \<lparr>contextFont = remFont ''bold 160px serif'' 3\<rparr>)"
    by (rule clamp_search_result [OF h1 h2 h3 h4 h5 h6])
  then show ?thesis by (simp add: numberToString_examples)
qed

text \<open>
  X3. The search has no bound of its own: the function fails to return exactly when
  the text does not fit at the font handed in, the available area is positive on
  both axes, and every size from 1 rem upwards measures strictly inside the area.
\<close>

theorem clamp_search_is_unbounded:
  "clampFontSizeToScreenPadding b txt fnt p c = None \<longleftrightarrow>
     \<not> (measuredWidth b txt fnt \<le> vec_x (availableArea b p)
          \<and> fontIntrinsicHeight b fnt \<le> vec_y (availableArea b p))
     \<and> 0 < vec_x (availableArea b p) \<and> 0 < vec_y (availableArea b p)
     \<and> (\<forall>m. 0 < m \<longrightarrow>
           measuredWidth b txt (remFont fnt m) < vec_x (availableArea b p)
           \<and> fontIntrinsicHeight b (remFont fnt m) < vec_y (availableArea b p))"
  unfolding clamp_None_iff fitsAlready_def fitsStrictly_def by simp

lemma flat_measures:
  "measuredWidth flatBrowser txt fnt = (if fnt = ''bold 48px serif'' then 120 else 0)"
  "fontIntrinsicHeight flatBrowser fnt = (if fnt = ''bold 48px serif'' then 60 else 0)"
  by (simp_all add: measuredWidth_def fontIntrinsicHeight_def flatBrowser_def)

lemma remFont_not_px: "remFont fnt m \<noteq> ''bold 48px serif''"
proof
  assume "remFont fnt m = ''bold 48px serif''"
  then have "getCSSFontSize (remFont fnt m) = getCSSFontSize ''bold 48px serif''" by simp
  moreover have "getCSSFontSize ''bold 48px serif'' = Str ''48px''"
    by (simp add: getCSSFontSize_def)
  ultimately have "numberToString m @ ''rem'' = ''48px''"
    by (simp add: getCSSFontSize_remFont)
  then have "last (numberToString m @ ''rem'') = last ''48px''" by simp
  then show False by simp
qed

theorem clamp_search_is_unbounded_witness:
  "clampFontSizeToScreenPadding flatBrowser ''Jonas'' ''bold 48px serif'' 0 freshCanvas = None"
proof -
  have area: "availableArea flatBrowser 0 = \<lparr>vec_x = 100, vec_y = 100\<rparr>"
    by (simp add: availableArea_def flatBrowser_def)
  have "\<not> (measuredWidth flatBrowser ''Jonas'' ''bold 48px serif'' \<le> vec_x (availableArea flatBrowser 0)
          \<and> fontIntrinsicHeight flatBrowser ''bold 48px serif'' \<le> vec_y (availableArea flatBrowser 0))
     \<and> 0 < vec_x (availableArea flatBrowser 0) \<and> 0 < vec_y (availableArea flatBrowser 0)
     \<and> (\<forall>m. 0 < m \<longrightarrow>
           measuredWidth flatBrowser ''Jonas'' (remFont ''bold 48px serif'' m) < vec_x (availableArea flatBrowser 0)
           \<and> fontIntrinsicHeight flatBrowser (remFont ''bold 48px serif'' m) < vec_y (availableArea flatBrowser 0))"
    by (simp add: area flat_measures remFont_not_px)
  then show ?thesis
    using clamp_search_is_unbounded [of flatBrowser "''Jonas''" "''bold 48px serif''" 0 freshCanvas]
    by blast
qed

text \<open>
  X4. When the size token of the font handed in is a whole positive number \<open>k\<close> of
  rem, the function returns, and what it returns is that size token or a number of
  rem that is at most \<open>k\<close>.
\<close>

theorem clamp_whole_rem_base:
  assumes "getCSSFontSize fnt = Str (numberToString k @ ''rem'')" and "0 < k"
  shows "\<exists>r c'. clampFontSizeToScreenPadding b txt fnt p c = Some (r, c')
                \<and> (r = getCSSFontSize fnt \<or> (\<exists>n \<le> k. r = Str (numberToString n @ ''rem'')))"
proof (cases "fitsAlready b txt fnt (availableArea b p)")
  case True
  then show ?thesis using clamp_fits [OF True, of c] by simp
next
  case nf: False
  show ?thesis
  proof (cases "0 < vec_x (availableArea b p) \<and> 0 < vec_y (availableArea b p)")
    case False
    have "clampFontSizeToScreenPadding b txt fnt p c = Some (Str (numberToString 0 @ ''rem''), \<lparr>contextFont = fnt\<rparr>)"
      by (rule clamp_degenerate [OF nf False])
    then show ?thesis by blast
  next
    case pos: True
    let ?Q = "\<lambda>m. 0 < m \<and> \<not> fitsStrictly b txt fnt (availableArea b p) m"
    have same: "remFont fnt k = fnt" by (rule remFont_same [OF assms(1)])
    have "\<not> fitsStrictly b txt fnt (availableArea b p) k"
      using nf unfolding fitsStrictly_def fitsAlready_def same by auto
    with assms(2) have Qk: "?Q k" by simp
    then have m: "?Q (LEAST m. ?Q m)" by (rule LeastI)
    have le: "(LEAST m. ?Q m) \<le> k" using Qk by (rule Least_le)
    have "\<forall>j. 0 < j \<and> j < (LEAST m. ?Q m) \<longrightarrow> fitsStrictly b txt fnt (availableArea b p) j"
      using not_less_Least [of _ ?Q] by blast
    from clamp_search [OF nf pos _ this, of c] m
    have "clampFontSizeToScreenPadding b txt fnt p c
           = Some (Str (numberToString (LEAST m. ?Q m) @ ''rem''), \<lparr>contextFont = remFont fnt (LEAST m. ?Q m)\<rparr>)"
      by simp
    with le show ?thesis by blast
  qed
qed

theorem clamp_whole_rem_base_witness:
  "getCSSFontSize ''bold 3rem serif'' = Str (numberToString 3 @ ''rem'') \<and> (0::nat) < 3
   \<and> (\<exists>r c'. clampFontSizeToScreenPadding (proportionalBrowser 100 600 (3 / 4)) ''Jonas'' ''bold 3rem serif'' 0 freshCanvas
                 = Some (r, c')
            \<and> (r = getCSSFontSize ''bold 3rem serif'' \<or> (\<exists>n \<le> 3. r = Str (numberToString n @ ''rem''))))"
proof -
  have h1: "getCSSFontSize ''bold 3rem serif'' = Str (numberToString 3 @ ''rem'')"
    by (simp add: getCSSFontSize_def numberToString_examples)
  have h2: "(0::nat) < 3" by simp
  from clamp_whole_rem_base [OF h1 h2] h1 h2 show ?thesis by blast
qed

section \<open>Further properties of the animation\<close>

text \<open>
  X5. On an animation whose container has a child, \<^verbatim>\<open>#createCSSTextParts\<close> ends
  without an error and appends one part rule per index below the part count, in
  index order. The rules are computed from the measured width of the text and, as its
  height, from the larger of \<^verbatim>\<open>getFontHeight\<close> and the number formed by the digits of
  the font's size token.
\<close>

theorem createCSSTextParts_rules:
  assumes "htmlTextContainer a = Some c" and "children c \<noteq> []"
  shows "\<exists>a' w' sz. createCSSTextParts b a w = Inr (a', w')
           \<and> getCSSFontSize (elementFont b (styleFontSize c)) = Str sz
           \<and> stylesheet a' = stylesheet a @
                map (cssTextPartRule a (partGrid (textCount a))
                       (measuredWidth b (anim_text a) (elementFont b (styleFontSize c)))
                       (max (fontIntrinsicHeight b (elementFont b (styleFontSize c)))
                            (real (digitsToNumber (filter isDigit sz)))))
                    [0 ..< nat (textCount a)]"
proof -
  obtain sz where sz: "getCSSFontSize (elementFont b (styleFontSize c)) = Str sz"
    using getCSSFontSize_elementFont by blast
  show ?thesis
    unfolding createCSSTextParts_eq [OF assms sz] using sz by simp
qed

theorem createCSSTextParts_rules_witness:
  "htmlTextContainer (createHTML (newTextAssembleAnimation\<lparr>textCount := 4\<rparr>))
     = Some \<lparr>containerClassList = [''textAssembleAnimationWrapper''],
             children = replicate 4 (textPartDiv []) @ [ghostDiv []],
             styleFontSize = [], styleDisplay = [], placement = Detached\<rparr>
   \<and> (\<exists>a' w'. createCSSTextParts (proportionalBrowser 2000 1000 (3 / 4))
                 (createHTML (newTextAssembleAnimation\<lparr>textCount := 4\<rparr>)) freshWorld = Inr (a', w')
              \<and> length (stylesheet a') = 4)"
proof -
  let ?a = "createHTML (newTextAssembleAnimation\<lparr>textCount := 4\<rparr>)"
  let ?c = "\<lparr>containerClassList = [''textAssembleAnimationWrapper''],
             children = replicate 4 (textPartDiv []) @ [ghostDiv []],
             styleFontSize = [], styleDisplay = [], placement = Detached\<rparr>"
  have h1: "htmlTextContainer ?a = Some ?c"
    by (simp add: createHTML_eq newTextAssembleAnimation_def)
  have h2: "children ?c \<noteq> []" by simp
  have s: "stylesheet ?a = []" "nat (textCount ?a) = 4"
    by (simp_all add: createHTML_eq newTextAssembleAnimation_def)
  from createCSSTextParts_rules [OF h1 h2, of "proportionalBrowser 2000 1000 (3 / 4)" freshWorld]
  obtain a' w' sz where r: "createCSSTextParts (proportionalBrowser 2000 1000 (3 / 4)) ?a freshWorld = Inr (a', w')"
    and sh: "stylesheet a' = stylesheet ?a @
                map (cssTextPartRule ?a (partGrid (textCount ?a))
                       (measuredWidth (proportionalBrowser 2000 1000 (3 / 4)) (anim_text ?a)
                          (elementFont (proportionalBrowser 2000 1000 (3 / 4)) (styleFontSize ?c)))
                       (max (fontIntrinsicHeight (proportionalBrowser 2000 1000 (3 / 4))
                               (elementFont (proportionalBrowser 2000 1000 (3 / 4)) (styleFontSize ?c)))
                            (real (digitsToNumber (filter isDigit sz)))))
                    [0 ..< nat (textCount ?a)]"
    by blast
  have "length (stylesheet a') = 4" unfolding sh s by simp
  with r h1 show ?thesis by blast
qed

lemma play_playing:
  assumes "htmlTextContainer a = Some c"
    and "children c = replicate n (playingPartDiv t) @ [(ghostDiv t)\<lparr>styleOpacity := ''0''\<rparr>]"
    and "htmlTextDiv a = Some n"
  shows "play a w =
           (a, w\<lparr>pendingTimeouts := pendingTimeouts w @ [(now w + max 0 ((startDelay_inS a + duration_inS a) * 1000), settle)]\<rparr>)"
proof -
  have c: "c = c\<lparr>children := replicate n (playingPartDiv t) @ [(ghostDiv t)\<lparr>styleOpacity := ''0''\<rparr>]\<rparr>"
    using assms(2) by simp
  let ?f = "\<lambda>cl. let cl = (if classList_contains ''textAssembleAnimation'' cl
                          then classList_remove ''textAssembleAnimation'' cl else cl);
                    cl = classList_add ''textAssembleAnimation'' cl
                in if classList_contains ''hide'' cl then classList_remove ''hide'' cl else cl"
  have "forEachPart ?f c = c"
    apply (subst c)
    unfolding ghostDiv_def playingPartDiv_def
    apply simp
    apply (subst forEachPart_initial)
      apply (simp_all add: classList_contains_def classList_remove_def classList_add_def Let_def)
    using assms(2) apply (simp add: ghostDiv_def playingPartDiv_def)
    done
  moreover have "setGhostOpacity (Some n) ''0'' c = c"
    using setGhostOpacity_last [where xs = "replicate n (playingPartDiv t)" and v = "''0''" and c = c
        and g = "(ghostDiv t)\<lparr>styleOpacity := ''0''\<rparr>"]
    by (simp add: c [symmetric])
  ultimately have "a\<lparr>htmlTextContainer := Some c\<rparr> = a \<Longrightarrow> ?thesis"
    using assms(1,3) by (simp add: play_def Let_def setTimeout_def)
  moreover have "a\<lparr>htmlTextContainer := Some c\<rparr> = a" using assms(1) by simp
  ultimately show ?thesis by simp
qed


text \<open>
  X6. A second \<^verbatim>\<open>play()\<close> does not cancel the settle callback of the first. When
  \<^verbatim>\<open>play()\<close> is called again \<open>dt\<close> milliseconds after the first call, with \<open>dt\<close>
  positive and below the total \<open>(s + d) * 1000\<close>, then after the remaining
  \<open>(s + d) * 1000 - dt\<close> milliseconds the first callback runs: all parts are hidden
  and the ghost has opacity 1, while the callback of the second call is still pending.
\<close>

theorem stale_settle_callback_fires:
  assumes "init b config a0 w0 = Some (Inr (a, w))"
    and "pendingTimeouts w0 = []"
    and "0 < dt" and "dt < (cfg_startDelay_inS config + cfg_duration_inS config) * 1000"
  shows "(\<forall>e \<in> set (parts (fst (elapse ((cfg_startDelay_inS config + cfg_duration_inS config) * 1000 - dt)
                                   (play (fst (elapse dt (play a w))) (snd (elapse dt (play a w))))))).
            isHidden e)
       \<and> length (parts (fst (elapse ((cfg_startDelay_inS config + cfg_duration_inS config) * 1000 - dt)
                                   (play (fst (elapse dt (play a w))) (snd (elapse dt (play a w)))))))
           = nat (textPartCount config)
       \<and> map_option styleOpacity
            (ghost (fst (elapse ((cfg_startDelay_inS config + cfg_duration_inS config) * 1000 - dt)
                                   (play (fst (elapse dt (play a w))) (snd (elapse dt (play a w)))))))
           = Some ''1''
       \<and> length (pendingTimeouts (snd (elapse ((cfg_startDelay_inS config + cfg_duration_inS config) * 1000 - dt)
                                   (play (fst (elapse dt (play a w))) (snd (elapse dt (play a w))))))) = 1"
proof -
  define n where "n = nat (textPartCount config)"
  define t where "t = cfg_text config"
  define D where "D = (cfg_startDelay_inS config + cfg_duration_inS config) * 1000"
  have D0: "0 \<le> D" and dtD: "dt < D" unfolding D_def using assms(3,4) by simp_all
  from init_cases [THEN conjunct2, of b config a0 w0] assms(1) obtain sz sheet cv calls where
    r: "Inr (a, w) = Inr ((configured config a0)
                      \<lparr>htmlTextContainer := Some
                          \<lparr>containerClassList = [''textAssembleAnimationWrapper''],
                           children = initialChildren config,
                           styleFontSize = sz, styleDisplay = ''flex'', placement = Detached\<rparr>,
                       htmlTextDiv := Some (nat (textPartCount config)),
                       stylesheet := sheet\<rparr>,
                    w0\<lparr>canvas := cv, randomCalls := calls, resizeListeners := Suc (resizeListeners w0)\<rparr>)"
    by blast
  define c where "c = \<lparr>containerClassList = [''textAssembleAnimationWrapper''],
                           children = initialChildren config,
                           styleFontSize = sz, styleDisplay = ''flex'', placement = Detached\<rparr>"
  have a: "htmlTextContainer a = Some c" "htmlTextDiv a = Some n"
      "(startDelay_inS a + duration_inS a) * 1000 = D"
    using r by (simp_all add: c_def n_def configured_def D_def)
  have w: "pendingTimeouts w = []" using r assms(2) by auto
  have cc: "children c = replicate n (textPartDiv t) @ [ghostDiv t]"
    by (simp add: c_def initialChildren_def n_def t_def)
  define c1 where "c1 = c\<lparr>children := replicate n (playingPartDiv t) @ [(ghostDiv t)\<lparr>styleOpacity := ''0''\<rparr>]\<rparr>"
  define a1 where "a1 = a\<lparr>htmlTextContainer := Some c1\<rparr>"
  define w1 where "w1 = w\<lparr>pendingTimeouts := [(now w + D, settle)]\<rparr>"
  have pl: "play a w = (a1, w1)"
    unfolding play_initial [OF a(1) cc a(2)] a1_def c1_def w1_def a(3) using w D0
    by (simp add: max_def)
  have a1: "htmlTextContainer a1 = Some c1" "htmlTextDiv a1 = Some n"
      "(startDelay_inS a1 + duration_inS a1) * 1000 = D"
    using a(3) by (simp_all add: a1_def a(2))
  have c1c: "children c1 = replicate n (playingPartDiv t) @ [(ghostDiv t)\<lparr>styleOpacity := ''0''\<rparr>]"
    by (simp add: c1_def)
  have w1p: "pendingTimeouts w1 = [(now w + D, settle)]" "now w1 = now w" by (simp_all add: w1_def)
  define w2 where "w2 = w1\<lparr>now := now w + dt\<rparr>"
  have e1: "elapse dt (play a w) = (a1, w2)"
  proof -
    have "\<not> now w + D \<le> now w1 + dt" using dtD w1p(2) by simp
    from elapse_single_early [OF w1p(1) this, of a1] show ?thesis
      unfolding pl w2_def w1p(2) by simp
  qed
  define w3 where "w3 = w2\<lparr>pendingTimeouts := [(now w + D, settle), (now w + dt + D, settle)]\<rparr>"
  have p2: "play a1 w2 = (a1, w3)"
    unfolding play_playing [OF a1(1) c1c a1(2)] a1(3) w3_def using D0
    by (simp add: w2_def w1_def max_def)
  define c2 where "c2 = c1\<lparr>children := replicate n (textPartDiv t) @ [ghostDiv t]\<rparr>"
  define a2 where "a2 = a1\<lparr>htmlTextContainer := Some c2\<rparr>"
  have st: "settle a1 = a2"
    unfolding a2_def c2_def by (rule settle_playing [OF a1(1) c1c a1(2)])
  have e2: "elapse (D - dt) (a1, w3) = (a2, w3\<lparr>now := now w + D, pendingTimeouts := [(now w + dt + D, settle)]\<rparr>)"
    using assms(3) st by (simp add: elapse_def Let_def w3_def w2_def)
  have a2: "htmlTextContainer a2 = Some c2" "htmlTextDiv a2 = Some n" by (simp_all add: a2_def a1(2))
  have c2c: "children c2 = replicate n (textPartDiv t) @ [ghostDiv t]" by (simp add: c2_def)
  have parts2: "parts a2 = replicate n (textPartDiv t)"
    using parts_initial [OF a2(1), of n "[''text'', ''hide'']" t "[]" "''1''"] c2c
    by (simp add: textPartDiv_def ghostDiv_def classList_contains_def)
  have ghost2: "ghost a2 = Some (ghostDiv t)"
    using ghost_last [OF a2(1), of "replicate n (textPartDiv t)" "ghostDiv t"] c2c a2(2) by simp
  have fin: "elapse (D - dt) (play (fst (elapse dt (play a w))) (snd (elapse dt (play a w))))
      = (a2, w3\<lparr>now := now w + D, pendingTimeouts := [(now w + dt + D, settle)]\<rparr>)"
    unfolding e1 using p2 e2 by simp
  have q1: "\<forall>e \<in> set (parts a2). isHidden e"
    by (simp add: parts2 isHidden_def textPartDiv_def classList_contains_def)
  have q2: "length (parts a2) = n" by (simp add: parts2)
  have q3: "map_option styleOpacity (ghost a2) = Some ''1''" by (simp add: ghost2 ghostDiv_def)
  show ?thesis
    unfolding D_def [symmetric] n_def [symmetric] fin using q1 q2 q3 by simp
qed

theorem stale_settle_callback_fires_witness:
  "init (proportionalBrowser 2000 1000 (3 / 4)) (demoConfig 49) newTextAssembleAnimation freshWorld
     = Some (Inr (initialised (init (proportionalBrowser 2000 1000 (3 / 4)) (demoConfig 49) newTextAssembleAnimation freshWorld)))
   \<and> pendingTimeouts freshWorld = [] \<and> (0::real) < 4000
   \<and> 4000 < (cfg_startDelay_inS (demoConfig 49) + cfg_duration_inS (demoConfig 49)) * 1000
   \<and> map_option styleOpacity
        (ghost (fst (elapse 7000
           (play (fst (elapse 4000 (play
                    (fst (initialised (init (proportionalBrowser 2000 1000 (3 / 4)) (demoConfig 49) newTextAssembleAnimation freshWorld)))
                    (snd (initialised (init (proportionalBrowser 2000 1000 (3 / 4)) (demoConfig 49) newTextAssembleAnimation freshWorld))))))
                 (snd (elapse 4000 (play
                    (fst (initialised (init (proportionalBrowser 2000 1000 (3 / 4)) (demoConfig 49) newTextAssembleAnimation freshWorld)))
                    (snd (initialised (init (proportionalBrowser 2000 1000 (3 / 4)) (demoConfig 49) newTextAssembleAnimation freshWorld))))))))))
       = Some ''1''"
proof -
  let ?r = "init (proportionalBrowser 2000 1000 (3 / 4)) (demoConfig 49) newTextAssembleAnimation freshWorld"
  have h1: "?r = Some (Inr (fst (initialised ?r), snd (initialised ?r)))"
    using demo_init_initialised [of 49 newTextAssembleAnimation] by simp
  have h2: "pendingTimeouts freshWorld = []" by (simp add: freshWorld_def)
  have h3: "(0::real) < 4000" by simp
  have h4: "4000 < (cfg_startDelay_inS (demoConfig 49) + cfg_duration_inS (demoConfig 49)) * 1000"
    by (simp add: demoConfig_def)
  have d: "(cfg_startDelay_inS (demoConfig 49) + cfg_duration_inS (demoConfig 49)) * 1000 - 4000 = 7000"
    by (simp add: demoConfig_def)
  from stale_settle_callback_fires [OF h1 h2 h3 h4] demo_init_initialised [of 49 newTextAssembleAnimation] h2 h4
  show ?thesis unfolding d by simp
qed

text \<open>
  X7. When every draw of the random source is a double in [0, 1), that is, at most
  \<open>1 - 2\<^sup>-\<^sup>5\<^sup>3\<close>, \<^verbatim>\<open>#createCSSKeyframes\<close> adds exactly one \<^verbatim>\<open>@keyframes\<close> rule per part
  index, in index order, whose three start rotations lie in [-500, 1000] and whose
  start depth lies in [-5000, 10000]: for the two configured ranges the rounding of
  \<^verbatim>\<open>random\<close> never reaches \<open>max + 1\<close>.
\<close>

theorem keyframes_within_configured_ranges:
  assumes "\<forall>k. 0 \<le> mathRandom b k \<and> mathRandom b k \<le> 1 - 1 / 2 ^ 53"
  shows "\<exists>ks. stylesheet (fst (createCSSKeyframes b a w)) = stylesheet a @ ks
            \<and> length ks = nat (textCount a)
            \<and> (\<forall>i < nat (textCount a). keyframeInRange i (ks ! i))"
proof -
  from createCSSKeyframe_fold [OF assms, of "nat (textCount a)" "stylesheet a" "randomCalls w"]
  obtain ks where ks: "fold (createCSSKeyframe b) [0 ..< nat (textCount a)] (stylesheet a, randomCalls w)
        = (stylesheet a @ ks, randomCalls w + 4 * nat (textCount a))"
      "length ks = nat (textCount a)" "\<forall>i < nat (textCount a). keyframeInRange i (ks ! i)"
    by blast
  have "stylesheet (fst (createCSSKeyframes b a w)) = stylesheet a @ ks"
    by (simp add: createCSSKeyframes_def ks(1))
  with ks(2,3) show ?thesis by blast
qed

theorem keyframes_within_configured_ranges_witness:
  "(\<forall>k. 0 \<le> mathRandom (proportionalBrowser 2000 1000 (3 / 4)) k
        \<and> mathRandom (proportionalBrowser 2000 1000 (3 / 4)) k \<le> 1 - 1 / 2 ^ 53)
   \<and> (\<exists>ks. stylesheet (fst (createCSSKeyframes (proportionalBrowser 2000 1000 (3 / 4))
                               (newTextAssembleAnimation\<lparr>textCount := 4\<rparr>) freshWorld)) = ks
          \<and> length ks = 4 \<and> (\<forall>i < 4. keyframeInRange i (ks ! i)))"
proof -
  let ?b = "proportionalBrowser 2000 1000 (3 / 4)"
  have h: "\<forall>k. 0 \<le> mathRandom ?b k \<and> mathRandom ?b k \<le> 1 - 1 / 2 ^ 53"
    by (simp add: proportionalBrowser_def)
  from keyframes_within_configured_ranges [OF h, of "newTextAssembleAnimation\<lparr>textCount := 4\<rparr>" freshWorld]
  have "\<exists>ks. stylesheet (fst (createCSSKeyframes ?b (newTextAssembleAnimation\<lparr>textCount := 4\<rparr>) freshWorld)) = ks
          \<and> length ks = 4 \<and> (\<forall>i < 4. keyframeInRange i (ks ! i))"
    by (simp add: newTextAssembleAnimation_def)
  then show ?thesis using h by simp
qed

end
